theory Spec2Isabelle
  imports Complex_Main "HOL-Library.Log_Nat" "HOL-Library.Sublist"
begin

section \<open>Numbers\<close>

text \<open>
  A TypeScript \<open>number\<close> is an IEEE-754 binary64 value. Every finite one is a rational, so
  numbers are modelled as reals, and every arithmetic operator of the source is the exact
  operation followed by rounding to the nearest binary64 value, ties to even
  (\<open>binary64\<close>). NaN and the infinities are not values of the model: the statistics only
  divide by a non-zero length, and results beyond the binary64 range (above \<open>2^1024\<close>) are
  out of reach of depth lists taken from a text. Counts (line numbers, depths, lengths) are
  natural numbers.
\<close>

definition roundTiesToEven :: "real \<Rightarrow> int" where
  "roundTiesToEven x =
     (let f = \<lfloor>x\<rfloor>; r = x - of_int f
      in if r < 1 / 2 then f else if 1 / 2 < r then f + 1 else if even f then f else f + 1)"

text \<open>The binary exponent of a positive number: the \<open>e\<close> with \<open>2^e \<le> x < 2^(e+1)\<close>.\<close>

definition exponent2 :: "real \<Rightarrow> int" where
  "exponent2 x =
     (if 1 \<le> x then int (floorlog 2 (nat \<lfloor>x\<rfloor>)) - 1
      else - int (floorlog 2 (nat (\<lceil>1 / x\<rceil> - 1))))"

text \<open>
  Rounding to 53 significant bits; below \<open>2^-1022\<close> the spacing stays \<open>2^-1074\<close>
  (subnormal numbers).
\<close>

definition binary64 :: "real \<Rightarrow> real" where
  "binary64 x =
     (if x = 0 then 0
      else let e = max (exponent2 \<bar>x\<bar>) (- 1022); q = 2 powi (e - 52)
           in of_int (roundTiesToEven (x / q)) * q)"

text \<open>
  The operators, over a rounding function \<open>rnd\<close>: the program runs them with
  \<open>rnd = binary64\<close>; \<open>rnd = (\<lambda>x. x)\<close> is exact arithmetic. \<open>x ** 2\<close> is taken as the
  rounded product and \<open>Math.sqrt\<close> as the rounded square root.
\<close>

definition num_add :: "(real \<Rightarrow> real) \<Rightarrow> real \<Rightarrow> real \<Rightarrow> real" where
  "num_add rnd a b = rnd (a + b)"

definition num_sub :: "(real \<Rightarrow> real) \<Rightarrow> real \<Rightarrow> real \<Rightarrow> real" where
  "num_sub rnd a b = rnd (a - b)"

definition num_mul :: "(real \<Rightarrow> real) \<Rightarrow> real \<Rightarrow> real \<Rightarrow> real" where
  "num_mul rnd a b = rnd (a * b)"

definition num_div :: "(real \<Rightarrow> real) \<Rightarrow> real \<Rightarrow> real \<Rightarrow> real" where
  "num_div rnd a b = rnd (a / b)"

definition num_sqrt :: "(real \<Rightarrow> real) \<Rightarrow> real \<Rightarrow> real" where
  "num_sqrt rnd a = rnd (sqrt a)"

section \<open>statistics.ts\<close>

record StatisticalMoments =
  s_score :: real
  s_sum :: real
  s_mean :: real
  s_variance :: real
  s_stdDev :: real
  s_median :: real
  s_max :: real

text \<open>\<open>xs[i] ?? 0\<close>: an index outside the array reads \<open>undefined\<close>, replaced by 0.\<close>

definition at_or0 :: "real list \<Rightarrow> int \<Rightarrow> real" where
  "at_or0 xs i = (if 0 \<le> i \<and> i < int (length xs) then xs ! nat i else 0)"

text \<open>\<open>xs.at(-1) ?? 0\<close>\<close>

definition last_or0 :: "real list \<Rightarrow> real" where
  "last_or0 xs = (case xs of [] \<Rightarrow> 0 | _ \<Rightarrow> last xs)"

definition computeStatisticsOn :: "(real \<Rightarrow> real) \<Rightarrow> real list \<Rightarrow> StatisticalMoments" where
  "computeStatisticsOn rnd depths =
     (if length depths = 0 then
        \<lparr>s_score = 0, s_sum = 0, s_mean = 0, s_variance = 0, s_stdDev = 0, s_median = 0,
         s_max = 0\<rparr>
      else
        let n = real (length depths);
            sum = foldl (\<lambda>acc d. num_add rnd acc d) 0 depths;
            mean = num_div rnd sum n;
            squaredDiffs = map (\<lambda>d. num_mul rnd (num_sub rnd d mean) (num_sub rnd d mean)) depths;
            variance = num_div rnd (foldl (\<lambda>acc d. num_add rnd acc d) 0 squaredDiffs) n;
            stdDev = num_sqrt rnd variance;
            sorted = sort depths;
            mid = int (length sorted div 2);
            median =
              (if length sorted mod 2 = 0
               then num_div rnd (num_add rnd (at_or0 sorted (mid - 1)) (at_or0 sorted mid)) 2
               else at_or0 sorted mid);
            max = last_or0 sorted;
            sumSquaredDepths = foldl (\<lambda>acc d. num_add rnd acc (num_mul rnd d d)) 0 depths;
            score = num_div rnd sumSquaredDepths n
        in \<lparr>s_score = score, s_sum = sum, s_mean = mean, s_variance = variance,
            s_stdDev = stdDev, s_median = median, s_max = max\<rparr>)"

definition computeStatistics :: "real list \<Rightarrow> StatisticalMoments" where
  "computeStatistics depths = computeStatisticsOn binary64 depths"

text \<open>
  \<open>buildHistogram\<close>: the object \<open>histogram\<close> as a map from depth to count, one update per
  element.
\<close>

definition buildHistogram :: "real list \<Rightarrow> (real \<rightharpoonup> nat)" where
  "buildHistogram depths =
     foldl (\<lambda>histogram depth.
              histogram(depth \<mapsto> (case histogram depth of None \<Rightarrow> 0 | Some c \<Rightarrow> c) + 1))
           Map.empty depths"

section \<open>constants.ts and assessment.ts\<close>

datatype ComplexityLevel = Low | Medium | High

record Thresholds =
  medium :: real
  high :: real

text \<open>\<open>Partial<Thresholds>\<close>: a field is \<open>None\<close> when the caller's object leaves it out.\<close>

record PartialThresholds =
  p_medium :: "real option"
  p_high :: "real option"

definition DEFAULT_THRESHOLDS :: Thresholds where
  "DEFAULT_THRESHOLDS = \<lparr>medium = 4, high = 10\<rparr>"

text \<open>
  \<open>resolveThresholds\<close>: no object at all gives the defaults; otherwise the spread
  \<open>{ ...DEFAULT_THRESHOLDS, ...userThresholds }\<close> takes each field the caller's object has.
\<close>

definition resolveThresholds :: "PartialThresholds option \<Rightarrow> Thresholds" where
  "resolveThresholds userThresholds =
     (case userThresholds of
        None \<Rightarrow> DEFAULT_THRESHOLDS
      | Some u \<Rightarrow>
          \<lparr>medium = (case p_medium u of None \<Rightarrow> medium DEFAULT_THRESHOLDS | Some m \<Rightarrow> m),
           high = (case p_high u of None \<Rightarrow> high DEFAULT_THRESHOLDS | Some h \<Rightarrow> h)\<rparr>)"

text \<open>Decimal digits of a natural number.\<close>

definition digitChar :: "nat \<Rightarrow> char" where
  "digitChar d = ''0123456789'' ! d"

function showNat :: "nat \<Rightarrow> string" where
  "showNat n = (if n < 10 then [digitChar n] else showNat (n div 10) @ [digitChar (n mod 10)])"
  by pat_completeness auto
termination
  by (relation "measure (\<lambda>n. n)") auto

text \<open>
  \<open>Number.prototype.toFixed(1)\<close>: the sign, then the integer \<open>n\<close> nearest to ten times the
  magnitude (the larger one on a tie), printed with one digit after the point. From
  \<open>10^21\<close> on the built-in falls back to the number's string conversion, which is the
  parameter \<open>numberToString\<close> (the template literal's conversion of a number, a built-in of
  the language).
\<close>

definition toFixed1 :: "(real \<Rightarrow> string) \<Rightarrow> real \<Rightarrow> string" where
  "toFixed1 numberToString x =
     (let s = (if x < 0 then ''-'' else []); y = \<bar>x\<bar>
      in if 10 ^ 21 \<le> y then s @ numberToString y
         else let n = nat \<lfloor>y * 10 + 1 / 2\<rfloor>
              in s @ showNat (n div 10) @ ''.'' @ showNat (n mod 10))"

text \<open>
  What the string conversion gives on an integer of magnitude below \<open>10^21\<close>: its decimal
  digits. It stands for the built-in where a concrete instance is evaluated on integer
  thresholds.
\<close>

definition integerToString :: "real \<Rightarrow> string" where
  "integerToString x = (if x < 0 then ''-'' else []) @ showNat (nat \<lfloor>\<bar>x\<bar>\<rfloor>)"

record Assessment =
  a_level :: ComplexityLevel
  a_reason :: string

definition assessComplexity :: "(real \<Rightarrow> string) \<Rightarrow> real \<Rightarrow> Thresholds \<Rightarrow> Assessment" where
  "assessComplexity numberToString score thresholds =
     (if score \<ge> high thresholds then
        \<lparr>a_level = High,
         a_reason = ''Score '' @ toFixed1 numberToString score @ '' exceeds high threshold (''
                    @ numberToString (high thresholds) @ '')''\<rparr>
      else if score \<ge> medium thresholds then
        \<lparr>a_level = Medium,
         a_reason = ''Score '' @ toFixed1 numberToString score @ '' exceeds medium threshold (''
                    @ numberToString (medium thresholds) @ '')''\<rparr>
      else
        \<lparr>a_level = Low, a_reason = ''Score indicates simple, low-nesting code''\<rparr>)"

section \<open>Strings\<close>

text \<open>
  A string is a list of characters; a character stands for a code unit below 256. The white
  space that \<open>trim\<close> removes and \<open>\s\<close> matches is, in that range: tab, line feed, vertical
  tab, form feed, carriage return, space and the no-break space.
\<close>

definition isWhiteSpace :: "char \<Rightarrow> bool" where
  "isWhiteSpace c \<longleftrightarrow>
     c \<in> set [CHR 0x09, CHR 0x0A, CHR 0x0B, CHR 0x0C, CHR 0x0D, CHR 0x20, CHR 0xA0]"

definition trim :: "string \<Rightarrow> string" where
  "trim s = rev (dropWhile isWhiteSpace (rev (dropWhile isWhiteSpace s)))"

definition startsWith :: "string \<Rightarrow> string \<Rightarrow> bool" where
  "startsWith s p \<longleftrightarrow> take (length p) s = p"

text \<open>\<open>s.split('\n')\<close>: always at least one piece; the pieces hold no line feed.\<close>

fun split_lines :: "string \<Rightarrow> string list" where
  "split_lines [] = [[]]"
| "split_lines (c # cs) =
     (if c = CHR 0x0A then [] # split_lines cs
      else (case split_lines cs of
              [] \<Rightarrow> [[c]]
            | l # ls \<Rightarrow> (c # l) # ls))"

text \<open>\<open>lines.join('\n')\<close>\<close>

fun join_lines :: "string list \<Rightarrow> string" where
  "join_lines [] = []"
| "join_lines [l] = l"
| "join_lines (l # m # ls) = l @ CHR 0x0A # join_lines (m # ls)"

section \<open>parser.ts\<close>

text \<open>
  \<open>DEFAULT_COMMENT_PATTERN\<close>, the regular expression
  \<^verbatim>\<open>/^\s*(\/\/|\/\*|\*|#|<!--|--)/\<close>, as the predicate its \<open>test\<close> computes: after the
  leading white space comes one of the six markers. (No marker starts with white space, so
  the greedy \<open>\s*\<close> never has to give a character back.)
\<close>

definition DEFAULT_COMMENT_PATTERN :: "string \<Rightarrow> bool" where
  "DEFAULT_COMMENT_PATTERN line =
     list_ex (startsWith (dropWhile isWhiteSpace line))
       [''//'', ''/*'', ''*'', ''#'', ''<!--'', ''--'']"

text \<open>
  The option \<open>commentPattern?: RegExp | null\<close>: left out, \<open>null\<close>, or a regular expression,
  which is the predicate of its \<open>test\<close> (a pattern without the \<open>g\<close> and \<open>y\<close> flags, whose
  \<open>test\<close> keeps no state).
\<close>

datatype CommentPatternOption = Omitted | Null | RegExp "string \<Rightarrow> bool"

text \<open>\<open>const { commentPattern = DEFAULT_COMMENT_PATTERN } = options\<close>\<close>

definition commentPatternOf :: "CommentPatternOption \<Rightarrow> (string \<Rightarrow> bool) option" where
  "commentPatternOf opt =
     (case opt of Omitted \<Rightarrow> Some DEFAULT_COMMENT_PATTERN | Null \<Rightarrow> None | RegExp p \<Rightarrow> Some p)"

text \<open>\<open>commentPattern !== null && commentPattern.test(line)\<close>\<close>

definition isComment :: "(string \<Rightarrow> bool) option \<Rightarrow> string \<Rightarrow> bool" where
  "isComment commentPattern line = (case commentPattern of None \<Rightarrow> False | Some p \<Rightarrow> p line)"

text \<open>
  The package \<open>detect-indent\<close> is not part of the repository: \<open>detectIndent\<close> is a parameter of
  the parsers. Of its result the code reads \<open>amount\<close>, a count of characters, and \<open>type\<close>,
  which is absent when no indentation was found.
\<close>

datatype IndentType = Space | Tab

record Indent =
  amount :: nat
  indentType :: "IndentType option"

text \<open>\<open>type === 'tab' ? 1 : amount || 1\<close>\<close>

definition indentUnitOf :: "Indent \<Rightarrow> nat" where
  "indentUnitOf d = (if indentType d = Some Tab then 1 else if amount d = 0 then 1 else amount d)"

record ParsedLine =
  lineNumber :: nat
  depth :: nat
  content :: string

record ParseResult =
  p_lines :: "ParsedLine list"
  p_indentUnit :: nat

text \<open>
  \<open>computeIndentDepth\<close>. The match of \<^verbatim>\<open>/^[\t ]*/\<close> is the longest prefix of tabs and
  spaces. The column count and the unit are natural numbers (below \<open>2^53\<close> the sums of the
  source are exact, and \<open>Math.floor\<close> of the quotient of two such numbers is their integer
  quotient). Both callers pass an indent unit of at least 1; with 0 the quotient of the
  source is not a number of the model (\<open>NaN\<close> or \<open>Infinity\<close>), and the theorems below assume
  a positive unit.
\<close>

definition computeIndentDepth :: "string \<Rightarrow> nat \<Rightarrow> nat" where
  "computeIndentDepth line indentUnit =
     (let leadingWhitespace = takeWhile (\<lambda>c. c = CHR 0x09 \<or> c = CHR '' '') line;
          charCount = foldl (\<lambda>charCount char.
                               charCount + (if char = CHR 0x09 then indentUnit else 1))
                        0 leadingWhitespace
      in charCount div indentUnit)"

text \<open>
  The loop of \<open>parseContent\<close> from index \<open>i\<close> on, over the lines not yet visited. (An
  element of the array returned by \<open>split\<close> is never \<open>undefined\<close>, so the first test of
  the loop body never fires.)
\<close>

fun parseContent_loop ::
  "(string \<Rightarrow> bool) option \<Rightarrow> nat \<Rightarrow> nat \<Rightarrow> string list \<Rightarrow> ParsedLine list" where
  "parseContent_loop commentPattern indentUnit i [] = []"
| "parseContent_loop commentPattern indentUnit i (line # rest) =
     (if length (trim line) = 0 then parseContent_loop commentPattern indentUnit (i + 1) rest
      else if isComment commentPattern line
        then parseContent_loop commentPattern indentUnit (i + 1) rest
      else \<lparr>lineNumber = i + 1, depth = computeIndentDepth line indentUnit,
             content = trim line\<rparr>
           # parseContent_loop commentPattern indentUnit (i + 1) rest)"

text \<open>
  \<open>parseContent\<close>; the parameter \<open>text\<close> is the source's \<open>content\<close>, and the options object,
  which has the one field \<open>commentPattern\<close>, is that field.
\<close>

definition parseContent ::
  "(string \<Rightarrow> Indent) \<Rightarrow> string \<Rightarrow> CommentPatternOption \<Rightarrow> ParseResult" where
  "parseContent detectIndent text opt =
     (let commentPattern = commentPatternOf opt;
          rawLines = split_lines text;
          indentUnit = indentUnitOf (detectIndent text)
      in \<lparr>p_lines = parseContent_loop commentPattern indentUnit 0 rawLines,
          p_indentUnit = indentUnit\<rparr>)"

definition DIFF_HEADER_PREFIXES :: "string list" where
  "DIFF_HEADER_PREFIXES = [''diff '', ''index '', ''+++'', ''---'', ''@@'']"

definition isDiffHeader :: "string \<Rightarrow> bool" where
  "isDiffHeader line = list_ex (\<lambda>prefix. startsWith line prefix) DIFF_HEADER_PREFIXES"

datatype Include = Additions | Deletions | Both

definition shouldIncludeLine :: "string \<Rightarrow> Include \<Rightarrow> bool" where
  "shouldIncludeLine line incl =
     (let isAddition = startsWith line ''+''; isDeletion = startsWith line ''-''
      in if \<not> isAddition \<and> \<not> isDeletion then False
         else if incl = Additions then isAddition
         else if incl = Deletions then isDeletion
         else True)"

definition extractDiffCodeLines :: "string list \<Rightarrow> string list" where
  "extractDiffCodeLines rawLines =
     map (\<lambda>line. drop 1 line)
       (filter (\<lambda>line. \<not> startsWith line ''+++'' \<and> \<not> startsWith line ''---'')
          (filter (\<lambda>line. startsWith line ''+'' \<or> startsWith line ''-'') rawLines))"

text \<open>
  The loop of \<open>parseDiff\<close>; \<open>counter\<close> is the variable \<open>lineNumber\<close> of the source as it
  stands before the line at the head.
\<close>

fun parseDiff_loop ::
  "Include \<Rightarrow> (string \<Rightarrow> bool) option \<Rightarrow> nat \<Rightarrow> nat \<Rightarrow> string list \<Rightarrow> ParsedLine list" where
  "parseDiff_loop incl commentPattern indentUnit counter [] = []"
| "parseDiff_loop incl commentPattern indentUnit counter (line # rest) =
     (if isDiffHeader line then parseDiff_loop incl commentPattern indentUnit counter rest
      else if \<not> shouldIncludeLine line incl
        then parseDiff_loop incl commentPattern indentUnit counter rest
      else if length (trim (drop 1 line)) = 0
        then parseDiff_loop incl commentPattern indentUnit (counter + 1) rest
      else if isComment commentPattern (drop 1 line)
        then parseDiff_loop incl commentPattern indentUnit (counter + 1) rest
      else \<lparr>lineNumber = counter + 1,
             depth = computeIndentDepth (drop 1 line) indentUnit,
             content = trim (drop 1 line)\<rparr>
           # parseDiff_loop incl commentPattern indentUnit (counter + 1) rest)"

definition parseDiff ::
  "(string \<Rightarrow> Indent) \<Rightarrow> string \<Rightarrow> Include \<Rightarrow> CommentPatternOption \<Rightarrow> ParseResult" where
  "parseDiff detectIndent diff incl opt =
     (let commentPattern = commentPatternOf opt;
          rawLines = split_lines diff;
          codeLines = extractDiffCodeLines rawLines;
          codeContent = join_lines codeLines;
          indentUnit = indentUnitOf (detectIndent codeContent)
      in \<lparr>p_lines = parseDiff_loop incl commentPattern indentUnit 0 rawLines,
          p_indentUnit = indentUnit\<rparr>)"

section \<open>result-builder.ts\<close>

record LineDetail =
  line :: nat
  d_depth :: nat
  d_content :: string

text \<open>
  The three result shapes, each an extension of the one before, and their union, the return
  type of \<open>buildResult\<close>. The fields \<open>max\<close> and \<open>sum\<close> are \<open>max_value\<close> and \<open>sum_value\<close>.
\<close>

record ComplexityResult =
  score :: real
  level :: ComplexityLevel
  reason :: string

record ComplexityResultVerbose = ComplexityResult +
  lineCount :: nat
  max_value :: real
  variance :: real
  mean :: real
  stdDev :: real
  median :: real
  sum_value :: real
  depthHistogram :: "real \<rightharpoonup> nat"

record ComplexityResultWithLines = ComplexityResultVerbose +
  lines :: "LineDetail list"

datatype AnalysisResult =
  Simple ComplexityResult
| Verbose ComplexityResultVerbose
| WithLines ComplexityResultWithLines

record BuildResultOptions =
  b_verbose :: bool
  b_includeLines :: bool
  userThresholds :: "PartialThresholds option"

definition buildResult ::
  "(real \<Rightarrow> string) \<Rightarrow> ParsedLine list \<Rightarrow> BuildResultOptions \<Rightarrow> AnalysisResult" where
  "buildResult numberToString parsed options =
     (let depths = map (\<lambda>l. real (depth l)) parsed;
          stats = computeStatistics depths;
          resolved = resolveThresholds (userThresholds options);
          assessment = assessComplexity numberToString (s_score stats) resolved;
          result = \<lparr>score = s_score stats, level = a_level assessment,
                    reason = a_reason assessment\<rparr>
      in if \<not> b_verbose options \<and> \<not> b_includeLines options then Simple result
         else
           let verboseResult =
                 \<lparr>score = score result, level = level result, reason = reason result,
                  lineCount = length parsed,
                  max_value = s_max stats,
                  variance = s_variance stats,
                  mean = s_mean stats,
                  stdDev = s_stdDev stats,
                  median = s_median stats,
                  sum_value = s_sum stats,
                  depthHistogram = buildHistogram depths\<rparr>
           in if b_includeLines options then
                let lineDetails =
                      map (\<lambda>l. \<lparr>line = lineNumber l, d_depth = depth l, d_content = content l\<rparr>)
                        parsed
                in WithLines
                     \<lparr>score = score verboseResult, level = level verboseResult,
                      reason = reason verboseResult,
                      lineCount = lineCount verboseResult,
                      max_value = max_value verboseResult,
                      variance = variance verboseResult,
                      mean = mean verboseResult,
                      stdDev = stdDev verboseResult,
                      median = median verboseResult,
                      sum_value = sum_value verboseResult,
                      depthHistogram = depthHistogram verboseResult,
                      lines = lineDetails\<rparr>
              else Verbose verboseResult)"

section \<open>analyze.ts and analyze-diff.ts\<close>

text \<open>
  The options of the two entry points; an optional field left out is \<open>None\<close> (\<open>Omitted\<close> for
  the comment pattern), and calling without options is calling with every field left out.
  The field \<open>include\<close> of the diff options is \<open>include_sel\<close>.
\<close>

record AnalyzeOptions =
  commentPattern :: CommentPatternOption
  thresholds :: "PartialThresholds option"
  verbose :: "bool option"
  includeLines :: "bool option"

record DiffOptions = AnalyzeOptions +
  include_sel :: "Include option"

definition analyzeComplexity ::
  "(string \<Rightarrow> Indent) \<Rightarrow> (real \<Rightarrow> string) \<Rightarrow> string \<Rightarrow> AnalyzeOptions \<Rightarrow> AnalysisResult" where
  "analyzeComplexity detectIndent numberToString text options =
     (let v = (case verbose options of None \<Rightarrow> False | Some b \<Rightarrow> b);
          il = (case includeLines options of None \<Rightarrow> False | Some b \<Rightarrow> b);
          parsed = p_lines (parseContent detectIndent text (commentPattern options))
      in buildResult numberToString parsed
           \<lparr>b_verbose = v, b_includeLines = il, userThresholds = thresholds options\<rparr>)"

definition analyzeDiffComplexity ::
  "(string \<Rightarrow> Indent) \<Rightarrow> (real \<Rightarrow> string) \<Rightarrow> string \<Rightarrow> DiffOptions \<Rightarrow> AnalysisResult" where
  "analyzeDiffComplexity detectIndent numberToString diff options =
     (let incl = (case include_sel options of None \<Rightarrow> Additions | Some i \<Rightarrow> i);
          v = (case verbose options of None \<Rightarrow> False | Some b \<Rightarrow> b);
          il = (case includeLines options of None \<Rightarrow> False | Some b \<Rightarrow> b);
          parsed = p_lines (parseDiff detectIndent diff incl (commentPattern options))
      in buildResult numberToString parsed
           \<lparr>b_verbose = v, b_includeLines = il, userThresholds = thresholds options\<rparr>)"

section \<open>The depth of a line in the words of the specification\<close>

text \<open>
  The specification's scan, to be compared with \<open>computeIndentDepth\<close>: go through the
  leading characters, stop at the first that is neither a tab nor a space, count the indent
  unit for a tab and 1 for a space; the depth is the quotient of the columns by the unit.
\<close>

fun leadingColumns :: "nat \<Rightarrow> string \<Rightarrow> nat" where
  "leadingColumns u [] = 0"
| "leadingColumns u (c # cs) =
     (if c = CHR 0x09 then u + leadingColumns u cs
      else if c = CHR '' '' then 1 + leadingColumns u cs
      else 0)"

definition spec_depth :: "string \<Rightarrow> nat \<Rightarrow> nat" where
  "spec_depth s u = leadingColumns u s div u"

section \<open>Reading a result\<close>

text \<open>
  Property access on the union of the three shapes: \<open>score\<close> and \<open>level\<close> are in every
  shape; the verbose fields are in the two larger ones, the line details in the largest.
\<close>

definition scoreOf :: "AnalysisResult \<Rightarrow> real" where
  "scoreOf r = (case r of Simple c \<Rightarrow> score c | Verbose v \<Rightarrow> score v | WithLines w \<Rightarrow> score w)"

definition levelOf :: "AnalysisResult \<Rightarrow> ComplexityLevel" where
  "levelOf r = (case r of Simple c \<Rightarrow> level c | Verbose v \<Rightarrow> level v | WithLines w \<Rightarrow> level w)"

definition verboseOf :: "AnalysisResult \<Rightarrow> ComplexityResultVerbose option" where
  "verboseOf r =
     (case r of
        Simple c \<Rightarrow> None
      | Verbose v \<Rightarrow> Some v
      | WithLines w \<Rightarrow> Some (ComplexityResultVerbose.truncate w))"

definition linesOf :: "AnalysisResult \<Rightarrow> LineDetail list option" where
  "linesOf r = (case r of Simple c \<Rightarrow> None | Verbose v \<Rightarrow> None | WithLines w \<Rightarrow> Some (lines w))"

section \<open>The two gates of the diff loop\<close>

text \<open>
  The tests of the loop of \<open>parseDiff\<close>, named for the statements below: a raw line passes
  the first gate when it is no diff header and its side is selected; a line that passed is
  counted when what follows its marker is neither blank nor a comment.
\<close>

definition passesGate :: "Include \<Rightarrow> string \<Rightarrow> bool" where
  "passesGate incl l \<longleftrightarrow> \<not> isDiffHeader l \<and> shouldIncludeLine l incl"

definition isCounted :: "(string \<Rightarrow> bool) option \<Rightarrow> string \<Rightarrow> bool" where
  "isCounted pat l \<longleftrightarrow>
     length (trim (drop 1 l)) \<noteq> 0 \<and> \<not> isComment pat (drop 1 l)"

text \<open>The parsed line the loop pushes for the raw line \<open>l\<close> when the counter has reached \<open>n\<close>.\<close>

definition parsedDiffLine :: "nat \<Rightarrow> nat \<Rightarrow> string \<Rightarrow> ParsedLine" where
  "parsedDiffLine indentUnit n l =
     \<lparr>lineNumber = n, depth = computeIndentDepth (drop 1 l) indentUnit,
      content = trim (drop 1 l)\<rparr>"

section \<open>Stand-ins for the detector\<close>

text \<open>
  Answers of \<open>detect-indent\<close> for the concrete inputs below: nothing found, a number of
  spaces, tabs; and a function whose answer is the length of the text it is given, to tell
  apart the texts a parser hands to the detector.
\<close>

definition detectsNothing :: "string \<Rightarrow> Indent" where
  "detectsNothing t = \<lparr>amount = 0, indentType = None\<rparr>"

definition detectsSpaces :: "nat \<Rightarrow> string \<Rightarrow> Indent" where
  "detectsSpaces n t = \<lparr>amount = n, indentType = Some Space\<rparr>"

definition detectsTabs :: "string \<Rightarrow> Indent" where
  "detectsTabs t = \<lparr>amount = 1, indentType = Some Tab\<rparr>"

definition detectsLength :: "string \<Rightarrow> Indent" where
  "detectsLength t = \<lparr>amount = length t, indentType = Some Space\<rparr>"

section \<open>Reading a printed score\<close>












section \<open>The rounding\<close>

text \<open>
  What makes \<open>binary64\<close> the rounding of the double format: \<open>exponent2\<close> is the binary
  exponent, the result is within half a unit in the last place of the argument, and the
  natural numbers below \<open>2^53\<close> are not changed.
\<close>

lemma roundTiesToEven_of_int: "roundTiesToEven (of_int k) = k"
  by (simp add: roundTiesToEven_def)

lemma roundTiesToEven_error: "\<bar>of_int (roundTiesToEven y) - y\<bar> \<le> 1 / 2"
proof -
  have "of_int \<lfloor>y\<rfloor> \<le> y" "y < of_int \<lfloor>y\<rfloor> + 1" by linarith+
  then show ?thesis
    by (auto simp: roundTiesToEven_def Let_def abs_le_iff)
qed

lemma floorlog2_bounds_real:
  assumes "0 < n"
  shows "(2::real) ^ (floorlog 2 n - 1) \<le> real n" and "real n + 1 \<le> 2 ^ floorlog 2 n"
    and "0 < floorlog 2 n"
proof -
  from floorlog_bounds [OF assms, of 2]
  have lo: "2 ^ (floorlog 2 n - 1) \<le> n" and hi: "n < 2 ^ floorlog 2 n" by simp_all
  from of_nat_mono [OF lo, where 'a = real]
  show "(2::real) ^ (floorlog 2 n - 1) \<le> real n" by simp
  from hi have "Suc n \<le> 2 ^ floorlog 2 n" by (rule Suc_leI)
  from of_nat_mono [OF this, where 'a = real]
  show "real n + 1 \<le> 2 ^ floorlog 2 n" by simp
  show "0 < floorlog 2 n" using assms by (simp add: floorlog_def)
qed

lemma exponent2_bounds:
  assumes "0 < x"
  shows "2 powi exponent2 x \<le> x \<and> x < 2 powi (exponent2 x + 1)"
proof (cases "1 \<le> x")
  case True
  let ?n = "nat \<lfloor>x\<rfloor>"
  let ?k = "floorlog 2 ?n"
  from True have n: "0 < ?n" by simp
  note b = floorlog2_bounds_real [OF n]
  have nx: "real ?n \<le> x" "x < real ?n + 1" using True by linarith+
  have e: "exponent2 x = int (?k - 1)" and e1: "exponent2 x + 1 = int ?k"
    using True b(3) by (simp_all add: exponent2_def)
  have "2 powi int (?k - 1) \<le> x" using b(1) nx(1) by (simp only: power_int_of_nat)
  moreover have "x < 2 powi int ?k" using b(2) nx(2) by (simp only: power_int_of_nat)
  ultimately show ?thesis unfolding e1 unfolding e by simp
next
  case False
  with assms have x: "0 < x" "x < 1" by simp_all
  let ?y = "1 / x"
  let ?m = "nat (\<lceil>?y\<rceil> - 1)"
  let ?k = "floorlog 2 ?m"
  from x have y: "1 < ?y" by simp
  then have c2: "2 \<le> \<lceil>?y\<rceil>" by linarith
  then have m: "0 < ?m" by simp
  note b = floorlog2_bounds_real [OF m]
  have "0 \<le> \<lceil>?y\<rceil> - 1" using c2 by linarith
  from of_nat_nat [OF this, where 'a = real]
  have rm: "real ?m = of_int \<lceil>?y\<rceil> - 1" by (simp only: of_int_diff of_int_1)
  have my: "real ?m < ?y" "?y \<le> real ?m + 1"
    unfolding rm by linarith+
  have e: "exponent2 x = - int ?k" and e1: "exponent2 x + 1 = - int (?k - 1)"
    using False b(3) by (simp_all add: exponent2_def)
  have "?y \<le> 2 ^ ?k" using my(2) b(2) by linarith
  then have "1 \<le> x * 2 ^ ?k" using x(1) by (simp add: field_simps)
  then have a: "1 / 2 ^ ?k \<le> x" by (simp add: field_simps)
  have "2 ^ (?k - 1) < ?y" using my(1) b(1) by linarith
  then have "x * 2 ^ (?k - 1) < 1" using x(1) by (simp add: field_simps)
  then have c: "x < 1 / 2 ^ (?k - 1)" by (simp add: field_simps)
  have p1: "(2::real) powi (- int ?k) = 1 / 2 ^ ?k"
    by (simp only: power_int_minus power_int_of_nat inverse_eq_divide)
  have p2: "(2::real) powi (- int (?k - 1)) = 1 / 2 ^ (?k - 1)"
    by (simp only: power_int_minus power_int_of_nat inverse_eq_divide)
  show ?thesis
    unfolding e1 p2 unfolding e p1 using a c by simp
qed

lemma binary64_error:
  assumes "x \<noteq> 0"
  shows "\<bar>binary64 x - x\<bar> \<le> 2 powi (max (exponent2 \<bar>x\<bar>) (- 1022) - 53)"
proof -
  let ?E = "max (exponent2 \<bar>x\<bar>) (- 1022)"
  let ?q = "(2::real) powi (?E - 52)"
  have q: "0 < ?q" by simp
  have b: "binary64 x = of_int (roundTiesToEven (x / ?q)) * ?q"
    using assms by (simp add: binary64_def Let_def)
  have "binary64 x - x = (of_int (roundTiesToEven (x / ?q)) - x / ?q) * ?q"
    unfolding b using q by (simp add: field_simps)
  then have "\<bar>binary64 x - x\<bar> = \<bar>of_int (roundTiesToEven (x / ?q)) - x / ?q\<bar> * ?q"
    using q by (simp add: abs_mult)
  also have "\<dots> \<le> 1 / 2 * ?q"
    using roundTiesToEven_error [of "x / ?q"] q by (intro mult_right_mono) simp_all
  also have "1 / 2 * ?q = 2 powi (?E - 53)"
  proof -
    have "?E - 52 = (?E - 53) + 1" by simp
    moreover have "(2::real) powi ((?E - 53) + 1) = 2 powi (?E - 53) * 2"
      by (rule power_int_add_1) simp
    ultimately have "?q = 2 powi (?E - 53) * 2" by (simp only:)
    then show ?thesis by simp
  qed
  finally show ?thesis .
qed

lemma binary64_nat:
  assumes "n < 2 ^ 53"
  shows "binary64 (real n) = real n"
proof (cases "n = 0")
  case True
  then show ?thesis by (simp add: binary64_def)
next
  case False
  then have n: "0 < n" by simp
  let ?k = "floorlog 2 n"
  have k1: "0 < ?k" using n by (simp add: floorlog_def)
  have k53: "?k \<le> 53" using assms by (intro floorlog_leI) simp_all
  have e: "exponent2 \<bar>real n\<bar> = int ?k - 1"
    using n by (simp add: exponent2_def)
  have E: "max (exponent2 \<bar>real n\<bar>) (- 1022) - 52 = - int (53 - ?k)"
    unfolding e using k1 k53 by simp
  have q: "(2::real) powi (- int (53 - ?k)) = 1 / 2 ^ (53 - ?k)"
    by (simp only: power_int_minus power_int_of_nat inverse_eq_divide)
  have d: "real n / (1 / 2 ^ (53 - ?k)) = of_int (int (n * 2 ^ (53 - ?k)))"
    by simp
  show ?thesis
    using n unfolding binary64_def Let_def E q d roundTiesToEven_of_int
    by simp
qed

text \<open>
  The same bound in absolute form: a value of magnitude at most \<open>K\<close> is moved by at most
  \<open>K / 2^53\<close>, or by half the spacing of the subnormal numbers.
\<close>

lemma binary64_abs_error:
  assumes "\<bar>x\<bar> \<le> K"
  shows "\<bar>binary64 x - x\<bar> \<le> K / 2 ^ 53 + 1 / 2 ^ 1075"
proof (cases "x = 0")
  case True
  with assms show ?thesis by (simp add: binary64_def)
next
  case False
  then have pos: "0 < \<bar>x\<bar>" by simp
  let ?e = "exponent2 \<bar>x\<bar>"
  from exponent2_bounds [OF pos] have lo: "2 powi ?e \<le> \<bar>x\<bar>" by simp
  have K: "0 \<le> K" using assms by linarith
  show ?thesis
  proof (cases "- 1022 \<le> ?e")
    case True
    then have m: "max ?e (- 1022) - 53 = ?e + (- 53)" by simp
    have "(2::real) powi (?e + (- 53)) = 2 powi ?e * 2 powi (- 53)"
      by (rule power_int_add) simp
    also have "(2::real) powi (- 53) = 1 / 2 ^ 53"
      by (simp add: power_int_minus inverse_eq_divide)
    finally have "(2::real) powi (max ?e (- 1022) - 53) = 2 powi ?e / 2 ^ 53"
      unfolding m by simp
    also have "\<dots> \<le> K / 2 ^ 53"
      using lo assms by (intro divide_right_mono) simp_all
    finally have "\<bar>binary64 x - x\<bar> \<le> K / 2 ^ 53"
      using binary64_error [OF False] by linarith
    then show ?thesis by (simp add: add_increasing2)
  next
    case False
    then have m: "max ?e (- 1022) - 53 = - 1075" by simp
    have "(2::real) powi (- 1075) = 1 / 2 ^ 1075"
      by (simp add: power_int_minus inverse_eq_divide)
    with binary64_error [OF \<open>x \<noteq> 0\<close>] have "\<bar>binary64 x - x\<bar> \<le> 1 / 2 ^ 1075"
      unfolding m by simp
    moreover have "0 \<le> K / 2 ^ 53" using K by simp
    ultimately show ?thesis by linarith
  qed
qed


section \<open>Statistics: the identity between score, variance and mean\<close>

lemma foldl_num_add_exact:
  "foldl (\<lambda>acc d. num_add (\<lambda>x. x) acc (f d)) a xs = a + (\<Sum>d\<leftarrow>xs. f d)"
  by (induction xs arbitrary: a) (simp_all add: num_add_def add.assoc)

lemma foldl_num_add_exact_id: "foldl (num_add (\<lambda>x. x)) a xs = a + sum_list xs"
  by (induction xs arbitrary: a) (simp_all add: num_add_def add.assoc)

lemma sum_list_sq_dev:
  fixes m :: real
  shows "(\<Sum>d\<leftarrow>xs. (d - m) * (d - m)) =
         (\<Sum>d\<leftarrow>xs. d * d) - 2 * m * (\<Sum>d\<leftarrow>xs. d) + real (length xs) * (m * m)"
  by (induction xs) (simp_all add: algebra_simps)

text \<open>
  In exact arithmetic the three formulas of \<open>computeStatistics\<close> (score: the sum of the
  squared depths over the count; mean: the sum of the depths over the count; variance: the sum
  of the squared differences to the mean over the count) satisfy score = variance + mean
  squared, for every non-empty list of depths.
\<close>

lemma score_identity_exact_arithmetic:
  assumes "depths \<noteq> []"
  shows "s_score (computeStatisticsOn (\<lambda>x. x) depths) =
         s_variance (computeStatisticsOn (\<lambda>x. x) depths)
           + (s_mean (computeStatisticsOn (\<lambda>x. x) depths))\<^sup>2"
proof -
  let ?n = "real (length depths)"
  let ?S = "\<Sum>d\<leftarrow>depths. d"
  let ?Q = "\<Sum>d\<leftarrow>depths. d * d"
  let ?m = "?S / ?n"
  from assms have n: "?n \<noteq> 0" by simp
  have sc: "s_score (computeStatisticsOn (\<lambda>x. x) depths) = ?Q / ?n"
    using assms
    by (simp add: computeStatisticsOn_def Let_def num_mul_def num_div_def
        foldl_num_add_exact)
  have me: "s_mean (computeStatisticsOn (\<lambda>x. x) depths) = ?m"
    using assms
    by (simp add: computeStatisticsOn_def Let_def num_div_def foldl_num_add_exact_id)
  have va: "s_variance (computeStatisticsOn (\<lambda>x. x) depths) =
            (\<Sum>d\<leftarrow>depths. (d - ?m) * (d - ?m)) / ?n"
    using assms
    by (simp add: computeStatisticsOn_def Let_def num_sub_def num_mul_def num_div_def
        foldl_num_add_exact_id comp_def)
  have dev: "(\<Sum>d\<leftarrow>depths. (d - ?m) * (d - ?m)) = ?Q - 2 * ?m * ?S + ?n * (?m * ?m)"
    by (rule sum_list_sq_dev)
  have S: "?S = ?m * ?n"
    using n by simp
  have alg: "(q - 2 * m * (m * k) + k * (m * m)) / k + m\<^sup>2 = q / k"
    if "k \<noteq> 0" for q m k :: real
    using that by (simp add: field_simps power2_eq_square)
  have "(?Q - 2 * ?m * ?S + ?n * (?m * ?m)) / ?n + ?m\<^sup>2 = ?Q / ?n"
    by (subst (2) S) (rule alg [OF n])
  then have "(\<Sum>d\<leftarrow>depths. (d - ?m) * (d - ?m)) / ?n + ?m\<^sup>2 = ?Q / ?n"
    by (simp only: dev)
  with sc me va show ?thesis by simp
qed

subsection \<open>The error of the rounded computation\<close>

text \<open>
  The statistics are now followed through an arbitrary rounding \<open>rnd\<close> that moves every value
  of magnitude at most \<open>K\<close> by at most \<open>e\<close>. A left fold of rounded additions over \<open>n\<close> terms
  is within \<open>n e\<close> of the exact sum.
\<close>

lemma sum_list_abs_bound:
  fixes ts :: "real list"
  assumes "\<forall>t \<in> set ts. \<bar>t\<bar> \<le> T"
  shows "\<bar>sum_list ts\<bar> \<le> real (length ts) * T"
  using assms
proof (induction ts)
  case Nil
  show ?case by simp
next
  case (Cons t ts)
  then have "\<bar>t\<bar> \<le> T" "\<bar>sum_list ts\<bar> \<le> real (length ts) * T" by simp_all
  then show ?case by (simp add: algebra_simps)
qed

lemma foldl_num_add_error:
  assumes R: "\<And>x. \<bar>x\<bar> \<le> K \<Longrightarrow> \<bar>rnd x - x\<bar> \<le> e"
    and e: "0 \<le> e"
    and T: "\<forall>t \<in> set ts. \<bar>t\<bar> \<le> T"
    and K: "real (length ts) * (T + e) \<le> K"
  shows "\<bar>foldl (num_add rnd) 0 ts - sum_list ts\<bar> \<le> real (length ts) * e"
  using T K
proof (induction ts rule: rev_induct)
  case Nil
  show ?case by simp
next
  case (snoc t ts)
  let ?A = "foldl (num_add rnd) 0 ts"
  let ?k = "real (length ts)"
  from snoc.prems have t: "\<bar>t\<bar> \<le> T" and Ts: "\<forall>t \<in> set ts. \<bar>t\<bar> \<le> T" by simp_all
  have T0: "0 \<le> T" using t by linarith
  from snoc.prems have K1: "(?k + 1) * (T + e) \<le> K" by (simp add: algebra_simps)
  have "?k * (T + e) \<le> (?k + 1) * (T + e)"
    using T0 e by (intro mult_right_mono) simp_all
  with K1 have "?k * (T + e) \<le> K" by linarith
  from snoc.IH [OF Ts this] have IH: "\<bar>?A - sum_list ts\<bar> \<le> ?k * e" .
  from sum_list_abs_bound [OF Ts] have S: "\<bar>sum_list ts\<bar> \<le> ?k * T" .
  have "\<bar>?A + t\<bar> \<le> ?k * e + ?k * T + T" using IH S t by linarith
  also have "\<dots> \<le> (?k + 1) * (T + e)" using e by (simp add: algebra_simps)
  finally have "\<bar>?A + t\<bar> \<le> K" using K1 by linarith
  from R [OF this] have "\<bar>rnd (?A + t) - (?A + t)\<bar> \<le> e" .
  with IH have "\<bar>rnd (?A + t) - (sum_list ts + t)\<bar> \<le> ?k * e + e" by linarith
  moreover have "foldl (num_add rnd) 0 (ts @ [t]) = num_add rnd ?A t" by simp
  moreover have "num_add rnd ?A t = rnd (?A + t)" by (simp add: num_add_def)
  ultimately show ?case by (simp add: algebra_simps)
qed


lemma div_error:
  fixes a b c n :: real
  assumes "0 < n" "\<bar>a - b\<bar> \<le> n * c"
  shows "\<bar>a / n - b / n\<bar> \<le> c"
proof -
  have "a / n - b / n = (a - b) / n" by (simp add: diff_divide_distrib)
  then have "\<bar>a / n - b / n\<bar> = \<bar>a - b\<bar> / n" using assms(1) by simp
  also have "\<dots> \<le> c" using assms by (simp add: pos_divide_le_eq mult.commute)
  finally show ?thesis .
qed

lemma div_bound:
  fixes a c n :: real
  assumes "0 < n" "\<bar>a\<bar> \<le> n * c"
  shows "\<bar>a / n\<bar> \<le> c"
  using div_error [of n a 0 c] assms by simp

lemma sum_list_map_error:
  fixes f g :: "'a \<Rightarrow> real"
  assumes "\<forall>x \<in> set xs. \<bar>f x - g x\<bar> \<le> c"
  shows "\<bar>sum_list (map f xs) - sum_list (map g xs)\<bar> \<le> real (length xs) * c"
  using assms
proof (induction xs)
  case Nil
  show ?case by simp
next
  case (Cons x xs)
  then have "\<bar>f x - g x\<bar> \<le> c"
    "\<bar>sum_list (map f xs) - sum_list (map g xs)\<bar> \<le> real (length xs) * c" by simp_all
  then show ?case by (simp add: algebra_simps)
qed

lemma square_bound:
  fixes x B :: real
  assumes "\<bar>x\<bar> \<le> B"
  shows "\<bar>x * x\<bar> \<le> B * B"
proof -
  have "\<bar>x\<bar> * \<bar>x\<bar> \<le> B * B" using assms by (intro mult_mono) simp_all
  then show ?thesis by (simp add: abs_mult)
qed

lemma square_error:
  fixes x a e B :: real
  assumes "\<bar>x - a\<bar> \<le> e" "\<bar>a\<bar> \<le> B" "e \<le> 1"
  shows "\<bar>x * x - a * a\<bar> \<le> e * (2 * B + 1)"
proof -
  have e0: "0 \<le> e" using assms(1) by linarith
  have "\<bar>x + a\<bar> \<le> 2 * B + 1" using assms by linarith
  moreover have "x * x - a * a = (x - a) * (x + a)" by (simp add: algebra_simps)
  ultimately have "\<bar>x * x - a * a\<bar> = \<bar>x - a\<bar> * \<bar>x + a\<bar>" by (simp add: abs_mult)
  also have "\<dots> \<le> e * (2 * B + 1)"
    using assms(1) \<open>\<bar>x + a\<bar> \<le> 2 * B + 1\<close> e0 by (intro mult_mono) simp_all
  finally show ?thesis .
qed

lemma computeStatisticsOn_moments:
  assumes "depths \<noteq> []"
  shows "s_mean (computeStatisticsOn rnd depths) =
           num_div rnd (foldl (num_add rnd) 0 depths) (real (length depths))"
    and "s_variance (computeStatisticsOn rnd depths) =
           num_div rnd
             (foldl (num_add rnd) 0
                (map (\<lambda>d. num_mul rnd (num_sub rnd d (s_mean (computeStatisticsOn rnd depths)))
                                       (num_sub rnd d (s_mean (computeStatisticsOn rnd depths))))
                   depths))
             (real (length depths))"
    and "s_score (computeStatisticsOn rnd depths) =
           num_div rnd (foldl (num_add rnd) 0 (map (\<lambda>d. num_mul rnd d d) depths))
             (real (length depths))"
  using assms by (simp_all add: computeStatisticsOn_def Let_def foldl_map)


text \<open>
  For depths between 0 and \<open>D\<close>: the mean is within \<open>2 e\<close> of the exact mean, the variance
  within \<open>(4 D + 8) e\<close> of the exact mean squared deviation from the computed mean, the score
  within \<open>3 e\<close> of the exact mean of squares; the exact identity then leaves
  \<open>(8 D + 19) e\<close> between the two sides.
\<close>

lemma identity_error_rounded:
  fixes D K e :: real
  assumes R: "\<And>x. \<bar>x\<bar> \<le> K \<Longrightarrow> \<bar>rnd x - x\<bar> \<le> e"
    and e0: "0 \<le> e" and e1: "e \<le> 1"
    and ne: "depths \<noteq> []"
    and dD: "\<forall>d \<in> set depths. 0 \<le> d \<and> d \<le> D"
    and D1: "1 \<le> D"
    and K: "real (length depths) * ((2 * D + 3)\<^sup>2 + 2) \<le> K"
  shows "\<bar>s_score (computeStatisticsOn rnd depths)
          - (s_variance (computeStatisticsOn rnd depths)
             + (s_mean (computeStatisticsOn rnd depths))\<^sup>2)\<bar> \<le> (8 * D + 19) * e"
proof -
  let ?n = "real (length depths)"
  let ?C = "(2 * D + 3)\<^sup>2"
  let ?S = "sum_list depths"
  let ?Q = "\<Sum>d\<leftarrow>depths. d * d"
  let ?m = "s_mean (computeStatisticsOn rnd depths)"
  let ?v = "s_variance (computeStatisticsOn rnd depths)"
  let ?sc = "s_score (computeStatisticsOn rnd depths)"
  note mo = computeStatisticsOn_moments [OF ne, of rnd]
  from ne have n1: "1 \<le> ?n" by (cases depths) simp_all
  then have n0: "0 < ?n" by linarith
  have DD: "D \<le> D * D" using D1 by (simp add: mult_le_cancel_left1)
  have C: "?C = 4 * (D * D) + 12 * D + 9" by (simp add: power2_eq_square algebra_simps)
  have C0: "0 \<le> ?C + 2" by simp
  have "1 * (?C + 2) \<le> ?n * (?C + 2)" using n1 C0 by (intro mult_right_mono) simp_all
  with K have KC: "?C + 2 \<le> K" by simp
  have nK: "?n * c \<le> K" if "c \<le> ?C + 2" for c
  proof -
    have "?n * c \<le> ?n * (?C + 2)" using that n0 by (intro mult_left_mono) simp_all
    with K show ?thesis by linarith
  qed
  have abs_d: "\<forall>d \<in> set depths. \<bar>d\<bar> \<le> D" using dD by auto

  \<comment> \<open>the sum and the mean\<close>
  let ?Sc = "foldl (num_add rnd) 0 depths"
  have "D + e \<le> ?C + 2" using C DD D1 e1 by linarith
  from foldl_num_add_error [of K rnd e depths D, OF R e0 abs_d nK [OF this]]
  have Sc: "\<bar>?Sc - ?S\<bar> \<le> ?n * e" .
  from sum_list_abs_bound [OF abs_d] have S: "\<bar>?S\<bar> \<le> ?n * D" .
  from div_error [OF n0 Sc] have Scn: "\<bar>?Sc / ?n - ?S / ?n\<bar> \<le> e" .
  from div_bound [OF n0 S] have Sn: "\<bar>?S / ?n\<bar> \<le> D" .
  have "\<bar>?Sc / ?n\<bar> \<le> K" using Scn Sn KC C DD D1 e1 by linarith
  from R [OF this] have "\<bar>?m - ?Sc / ?n\<bar> \<le> e" by (simp add: mo(1) num_div_def)
  with Scn have m_err: "\<bar>?m - ?S / ?n\<bar> \<le> 2 * e" by linarith
  with Sn e1 have m_abs: "\<bar>?m\<bar> \<le> D + 2" by linarith

  \<comment> \<open>the squared differences and the variance\<close>
  let ?sq = "map (\<lambda>d. num_mul rnd (num_sub rnd d ?m) (num_sub rnd d ?m)) depths"
  let ?ex = "map (\<lambda>d. (d - ?m) * (d - ?m)) depths"
  have tm: "\<bar>num_mul rnd (num_sub rnd d ?m) (num_sub rnd d ?m) - (d - ?m) * (d - ?m)\<bar>
                \<le> e * (4 * D + 6) \<and>
              \<bar>num_mul rnd (num_sub rnd d ?m) (num_sub rnd d ?m)\<bar> \<le> ?C + 1"
    if d: "d \<in> set depths" for d
  proof -
    let ?a = "d - ?m"
    let ?x = "rnd ?a"
    from d abs_d have "\<bar>d\<bar> \<le> D" by blast
    with m_abs have a: "\<bar>?a\<bar> \<le> 2 * D + 2" by linarith
    then have "\<bar>?a\<bar> \<le> K" using KC C DD D1 by linarith
    from R [OF this] have xa: "\<bar>?x - ?a\<bar> \<le> e" .
    with a e1 have x: "\<bar>?x\<bar> \<le> 2 * D + 3" by linarith
    from square_bound [OF x] have p: "\<bar>?x * ?x\<bar> \<le> ?C" by (simp add: power2_eq_square)
    then have "\<bar>?x * ?x\<bar> \<le> K" using KC by linarith
    from R [OF this] have sp: "\<bar>rnd (?x * ?x) - ?x * ?x\<bar> \<le> e" .
    from square_error [OF xa a e1] have "\<bar>?x * ?x - ?a * ?a\<bar> \<le> e * (2 * (2 * D + 2) + 1)" .
    then have "\<bar>?x * ?x - ?a * ?a\<bar> \<le> e * (4 * D + 5)" by (simp add: algebra_simps)
    with sp have "\<bar>rnd (?x * ?x) - ?a * ?a\<bar> \<le> e * (4 * D + 6)"
      by (simp add: algebra_simps)
    moreover from sp p e1 have "\<bar>rnd (?x * ?x)\<bar> \<le> ?C + 1" by linarith
    ultimately show ?thesis by (simp add: num_mul_def num_sub_def)
  qed
  have "\<forall>d \<in> set depths.
          \<bar>num_mul rnd (num_sub rnd d ?m) (num_sub rnd d ?m) - (d - ?m) * (d - ?m)\<bar>
            \<le> e * (4 * D + 6)"
    using tm by blast
  from sum_list_map_error [OF this]
  have sq_ex: "\<bar>sum_list ?sq - sum_list ?ex\<bar> \<le> ?n * (e * (4 * D + 6))" .
  have sq_abs: "\<forall>t \<in> set ?sq. \<bar>t\<bar> \<le> ?C + 1" using tm by auto
  let ?Vc = "foldl (num_add rnd) 0 ?sq"
  have "?C + 1 + e \<le> ?C + 2" using e1 by simp
  then have "real (length ?sq) * (?C + 1 + e) \<le> K" using nK by simp
  from foldl_num_add_error [of K rnd e ?sq "?C + 1", OF R e0 sq_abs this]
  have Vc: "\<bar>?Vc - sum_list ?sq\<bar> \<le> ?n * e" by simp
  with sq_ex have "\<bar>?Vc - sum_list ?ex\<bar> \<le> ?n * e + ?n * (e * (4 * D + 6))" by linarith
  then have "\<bar>?Vc - sum_list ?ex\<bar> \<le> ?n * (e * (4 * D + 7))" by (simp add: algebra_simps)
  from div_error [OF n0 this]
  have Vcn: "\<bar>?Vc / ?n - sum_list ?ex / ?n\<bar> \<le> e * (4 * D + 7)" .
  from sum_list_abs_bound [OF sq_abs] have "\<bar>sum_list ?sq\<bar> \<le> ?n * (?C + 1)" by simp
  with Vc have "\<bar>?Vc\<bar> \<le> ?n * (?C + 1) + ?n * e" by linarith
  then have "\<bar>?Vc\<bar> \<le> ?n * (?C + 1 + e)" by (simp add: algebra_simps)
  from div_bound [OF n0 this] have "\<bar>?Vc / ?n\<bar> \<le> K" using e1 KC by linarith
  from R [OF this] have "\<bar>?v - ?Vc / ?n\<bar> \<le> e" by (simp add: mo(2) num_div_def)
  with Vcn have v_err: "\<bar>?v - sum_list ?ex / ?n\<bar> \<le> e * (4 * D + 8)"
    by (simp add: algebra_simps)

  \<comment> \<open>the score\<close>
  let ?qs = "map (\<lambda>d. num_mul rnd d d) depths"
  have qterm: "\<bar>num_mul rnd d d - d * d\<bar> \<le> e \<and> \<bar>num_mul rnd d d\<bar> \<le> D * D + 1"
    if d: "d \<in> set depths" for d
  proof -
    from d abs_d have "\<bar>d\<bar> \<le> D" by blast
    from square_bound [OF this] have dd: "\<bar>d * d\<bar> \<le> D * D" .
    then have "\<bar>d * d\<bar> \<le> K" using KC C D1 by linarith
    from R [OF this] have r: "\<bar>rnd (d * d) - d * d\<bar> \<le> e" .
    with dd e1 have "\<bar>rnd (d * d)\<bar> \<le> D * D + 1" by linarith
    with r show ?thesis unfolding num_mul_def by (rule conjI)
  qed
  have "\<forall>d \<in> set depths. \<bar>num_mul rnd d d - d * d\<bar> \<le> e" using qterm by blast
  from sum_list_map_error [OF this] have qs_Q: "\<bar>sum_list ?qs - ?Q\<bar> \<le> ?n * e" .
  have qs_abs: "\<forall>t \<in> set ?qs. \<bar>t\<bar> \<le> D * D + 1" using qterm by auto
  let ?Qc = "foldl (num_add rnd) 0 ?qs"
  have "D * D + 1 + e \<le> ?C + 2" using C D1 e1 DD by linarith
  then have "real (length ?qs) * (D * D + 1 + e) \<le> K" using nK by simp
  from foldl_num_add_error [of K rnd e ?qs "D * D + 1", OF R e0 qs_abs this]
  have Qc: "\<bar>?Qc - sum_list ?qs\<bar> \<le> ?n * e" by simp
  with qs_Q have "\<bar>?Qc - ?Q\<bar> \<le> ?n * e + ?n * e" by linarith
  then have "\<bar>?Qc - ?Q\<bar> \<le> ?n * (2 * e)" by (simp add: algebra_simps)
  from div_error [OF n0 this] have Qcn: "\<bar>?Qc / ?n - ?Q / ?n\<bar> \<le> 2 * e" .
  from sum_list_abs_bound [OF qs_abs] have "\<bar>sum_list ?qs\<bar> \<le> ?n * (D * D + 1)" by simp
  with Qc have "\<bar>?Qc\<bar> \<le> ?n * (D * D + 1) + ?n * e" by linarith
  then have "\<bar>?Qc\<bar> \<le> ?n * (D * D + 1 + e)" by (simp add: algebra_simps)
  from div_bound [OF n0 this] have "\<bar>?Qc / ?n\<bar> \<le> K" using e1 KC C D1 DD by linarith
  from R [OF this] have "\<bar>?sc - ?Qc / ?n\<bar> \<le> e" by (simp add: mo(3) num_div_def)
  with Qcn have sc_err: "\<bar>?sc - ?Q / ?n\<bar> \<le> 3 * e" by linarith

  \<comment> \<open>the identity of exact arithmetic, around the rounded mean\<close>
  have "sum_list ?ex = ?Q - 2 * ?m * ?S + ?n * (?m * ?m)"
    using sum_list_sq_dev [of ?m depths] by simp
  then have "sum_list ?ex / ?n = ?Q / ?n - 2 * ?m * (?S / ?n) + ?m * ?m"
    using n0 by (simp add: field_simps)
  then have id: "sum_list ?ex / ?n + ?m\<^sup>2 - ?Q / ?n = 2 * ?m * (?m - ?S / ?n)"
    by (simp add: power2_eq_square algebra_simps)
  have "\<bar>2 * ?m * (?m - ?S / ?n)\<bar> = 2 * \<bar>?m\<bar> * \<bar>?m - ?S / ?n\<bar>" by (simp add: abs_mult)
  also have "\<dots> \<le> 2 * (D + 2) * (2 * e)"
    using m_abs m_err D1 by (intro mult_mono) simp_all
  finally have "\<bar>sum_list ?ex / ?n + ?m\<^sup>2 - ?Q / ?n\<bar> \<le> e * (4 * D + 8)"
    unfolding id by (simp add: algebra_simps)
  with v_err sc_err have "\<bar>?sc - (?v + ?m\<^sup>2)\<bar> \<le> 3 * e + e * (4 * D + 8) + e * (4 * D + 8)"
    by linarith
  then show ?thesis by (simp add: algebra_simps)
qed


text \<open>
  The statistics of the depths \<open>[0, 1, 2]\<close> as the program computes them: the mean is exactly
  1, the squared deviations are 1, 0, 1, and the two divisions by 3 round in opposite
  directions. The score is the binary64 value above \<open>5/3\<close> (printed 1.6666666666666667), the
  variance the one below \<open>2/3\<close> (printed 0.6666666666666666).
\<close>

lemma statistics_of_0_1_2:
  "s_score (computeStatistics [0, 1, 2]) = 7505999378950827 / 4503599627370496"
  "s_mean (computeStatistics [0, 1, 2]) = 1"
  "s_variance (computeStatistics [0, 1, 2]) = 6004799503160661 / 9007199254740992"
proof -
  have b0: "binary64 0 = 0" by (simp add: binary64_def)
  have b1: "binary64 1 = 1" and b2: "binary64 2 = 2" and b3: "binary64 3 = 3"
    and b4: "binary64 4 = 4" and b5: "binary64 5 = 5" and bm: "binary64 (- 1) = - 1"
    by (simp_all add: binary64_def exponent2_def roundTiesToEven_def compute_floorlog Let_def)
  have d2: "binary64 (2 / 3) = 6004799503160661 / 9007199254740992"
    by (simp add: binary64_def exponent2_def roundTiesToEven_def compute_floorlog Let_def)
  have d5: "binary64 (5 / 3) = 7505999378950827 / 4503599627370496"
    by (simp add: binary64_def exponent2_def roundTiesToEven_def compute_floorlog Let_def)
  show "s_score (computeStatistics [0, 1, 2]) = 7505999378950827 / 4503599627370496"
    by (simp add: computeStatistics_def computeStatisticsOn_def Let_def num_add_def
        num_mul_def num_div_def b0 b1 b4 b5 d5)
  show "s_mean (computeStatistics [0, 1, 2]) = 1"
    by (simp add: computeStatistics_def computeStatisticsOn_def Let_def num_add_def
        num_div_def b0 b1 b2 b3)
  show "s_variance (computeStatistics [0, 1, 2]) = 6004799503160661 / 9007199254740992"
    by (simp add: computeStatistics_def computeStatisticsOn_def Let_def num_add_def
        num_sub_def num_mul_def num_div_def b0 b1 b2 b3 bm d2)
qed

text \<open>
  C1, as stated, fails on the program's binary64 arithmetic. For the depths \<open>[0, 1, 2]\<close>
  the returned values satisfy the identity neither as exact numbers (the two sides differ by
  \<open>2^-53\<close>) nor when the right-hand side is itself computed in binary64 (which gives
  1.6666666666666665).
\<close>

theorem score_eq_variance_plus_mean_sq_counterexample:
  "s_score (computeStatistics [0, 1, 2]) = 7505999378950827 / 4503599627370496 \<and>
   s_variance (computeStatistics [0, 1, 2]) = 6004799503160661 / 9007199254740992 \<and>
   s_mean (computeStatistics [0, 1, 2]) = 1 \<and>
   s_score (computeStatistics [0, 1, 2]) \<noteq>
     s_variance (computeStatistics [0, 1, 2]) + (s_mean (computeStatistics [0, 1, 2]))\<^sup>2 \<and>
   s_score (computeStatistics [0, 1, 2]) \<noteq>
     binary64 (s_variance (computeStatistics [0, 1, 2])
       + binary64 (s_mean (computeStatistics [0, 1, 2]) * s_mean (computeStatistics [0, 1, 2])))"
proof -
  have b1: "binary64 1 = 1"
    by (simp add: binary64_def exponent2_def roundTiesToEven_def compute_floorlog Let_def)
  have r: "binary64 (15011998757901653 / 9007199254740992)
             = 3752999689475413 / 2251799813685248"
    by (simp add: binary64_def exponent2_def roundTiesToEven_def compute_floorlog Let_def)
  show ?thesis
    unfolding statistics_of_0_1_2 by (simp add: b1 r)
qed

text \<open>
  C1, as amended. On the values the program returns the identity holds up to rounding: for
  every non-empty list of depths between 0 and a bound \<open>D\<close> of at least 1, with \<open>n\<close> the
  number of depths and \<open>n ((2 D + 3)^2 + 2)\<close> at most \<open>2^52\<close>, the score and the sum of the
  variance and the squared mean, all three taken from the values \<open>computeStatistics\<close> returns,
  differ by at most \<open>(8 D + 19) (n ((2 D + 3)^2 + 2) + 1) / 2^53\<close>. (In exact arithmetic the
  two sides are equal, see \<open>score_identity_exact_arithmetic\<close>.)
\<close>

theorem score_eq_variance_plus_mean_sq_rounded:
  assumes "depths \<noteq> []"
    and "\<forall>d \<in> set depths. 0 \<le> d \<and> d \<le> D"
    and "1 \<le> D"
    and "real (length depths) * ((2 * D + 3)\<^sup>2 + 2) \<le> 2 ^ 52"
  shows "\<bar>s_score (computeStatistics depths)
          - (s_variance (computeStatistics depths) + (s_mean (computeStatistics depths))\<^sup>2)\<bar>
         \<le> (8 * D + 19) * (real (length depths) * ((2 * D + 3)\<^sup>2 + 2) + 1) / 2 ^ 53"
proof -
  let ?K = "real (length depths) * ((2 * D + 3)\<^sup>2 + 2)"
  let ?e = "?K / 2 ^ 53 + 1 / 2 ^ 1075"
  have K0: "0 \<le> ?K" by simp
  have R: "\<bar>binary64 x - x\<bar> \<le> ?e" if "\<bar>x\<bar> \<le> ?K" for x
    using that by (rule binary64_abs_error)
  have e0: "0 \<le> ?e" using K0 by simp
  have small: "(1::real) / 2 ^ 1075 \<le> 1 / 2 ^ 53"
    by (intro divide_left_mono power_increasing) simp_all
  have "?K / 2 ^ 53 \<le> 2 ^ 52 / 2 ^ 53" using assms(4) by (intro divide_right_mono) simp_all
  then have half: "?K / 2 ^ 53 \<le> 1 / 2" by simp
  have "(1::real) / 2 ^ 53 \<le> 1 / 2 ^ 1"
    by (intro divide_left_mono power_increasing) simp_all
  with small half have e1: "?e \<le> 1" by simp
  have e2: "?e \<le> (?K + 1) / 2 ^ 53" using small by (simp add: add_divide_distrib)
  from identity_error_rounded [of ?K binary64 ?e depths D, OF R e0 e1 assms(1-3) order_refl]
  have "\<bar>s_score (computeStatistics depths)
          - (s_variance (computeStatistics depths) + (s_mean (computeStatistics depths))\<^sup>2)\<bar>
        \<le> (8 * D + 19) * ?e"
    by (simp only: computeStatistics_def)
  also have "\<dots> \<le> (8 * D + 19) * ((?K + 1) / 2 ^ 53)"
    using e2 assms(3) by (intro mult_left_mono) simp_all
  finally show ?thesis by simp
qed

theorem score_eq_variance_plus_mean_sq_rounded_witness:
  "[0, 1, 2] \<noteq> ([] :: real list) \<and> (1::real) \<le> 2 \<and>
   real (length [0, 1, 2 :: real]) * ((2 * 2 + 3)\<^sup>2 + 2) \<le> 2 ^ 52 \<and>
   \<bar>s_score (computeStatistics [0, 1, 2])
      - (s_variance (computeStatistics [0, 1, 2]) + (s_mean (computeStatistics [0, 1, 2]))\<^sup>2)\<bar>
     = 1 / 2 ^ 53 \<and>
   \<bar>s_score (computeStatistics [0, 1, 2])
      - (s_variance (computeStatistics [0, 1, 2]) + (s_mean (computeStatistics [0, 1, 2]))\<^sup>2)\<bar>
     \<le> (8 * 2 + 19) * (real (length [0, 1, 2 :: real]) * ((2 * 2 + 3)\<^sup>2 + 2) + 1) / 2 ^ 53"
proof -
  have h: "\<forall>d \<in> set [0, 1, 2 :: real]. 0 \<le> d \<and> d \<le> 2" by simp
  have k: "real (length [0, 1, 2 :: real]) * ((2 * 2 + 3)\<^sup>2 + 2) \<le> 2 ^ 52" by simp
  have g: "\<bar>s_score (computeStatistics [0, 1, 2])
      - (s_variance (computeStatistics [0, 1, 2]) + (s_mean (computeStatistics [0, 1, 2]))\<^sup>2)\<bar>
     = 1 / 2 ^ 53"
    unfolding statistics_of_0_1_2 by simp
  have b: "\<bar>s_score (computeStatistics [0, 1, 2])
      - (s_variance (computeStatistics [0, 1, 2]) + (s_mean (computeStatistics [0, 1, 2]))\<^sup>2)\<bar>
     \<le> (8 * 2 + 19) * (real (length [0, 1, 2 :: real]) * ((2 * 2 + 3)\<^sup>2 + 2) + 1) / 2 ^ 53"
    by (rule score_eq_variance_plus_mean_sq_rounded [OF _ h _ k]) simp_all
  from g b k show ?thesis by simp
qed

section \<open>Assessment\<close>

subsection \<open>The printed score\<close>

text \<open>
  The digits that \<open>showNat\<close> prints read back as the number printed, and the numeral that
  \<open>toFixed1\<close> prints for a score of magnitude below \<open>10^21\<close> reads back as the score rounded
  to one decimal. The recursion equation of \<open>showNat\<close> is applied by hand in this section.
\<close>

declare showNat.simps [simp del]
















subsection \<open>The tiers\<close>




declare showNat.simps [simp]

text \<open>
  C3, as stated, fails: with \<open>medium = 10\<close> and \<open>high = 4\<close> the score 5 lies between the
  two and the level returned is high, because the high comparison comes first.
\<close>

theorem inverted_thresholds_counterexample:
  "medium (resolveThresholds (Some \<lparr>p_medium = Some 10, p_high = Some 4\<rparr>))
     > high (resolveThresholds (Some \<lparr>p_medium = Some 10, p_high = Some 4\<rparr>)) \<and>
   high (resolveThresholds (Some \<lparr>p_medium = Some 10, p_high = Some 4\<rparr>)) \<le> 5 \<and>
   5 < medium (resolveThresholds (Some \<lparr>p_medium = Some 10, p_high = Some 4\<rparr>)) \<and>
   a_level (assessComplexity integerToString 5
      (resolveThresholds (Some \<lparr>p_medium = Some 10, p_high = Some 4\<rparr>))) = High"
  by (simp add: resolveThresholds_def assessComplexity_def)

text \<open>
  C3, as amended. When \<open>medium\<close> is above \<open>high\<close>, every score from \<open>high\<close> up to
  \<open>medium\<close> is assessed high; the level that no score reaches is medium.
\<close>

theorem inverted_thresholds_high_between:
  assumes "medium t > high t"
  shows "(high t \<le> sc \<and> sc < medium t \<longrightarrow>
            a_level (assessComplexity ts sc t) = High) \<and>
         a_level (assessComplexity ts sc t) \<noteq> Medium"
  using assms by (simp add: assessComplexity_def)

theorem inverted_thresholds_high_between_witness:
  "medium \<lparr>medium = 10, high = 4\<rparr> > high \<lparr>medium = 10, high = 4\<rparr> \<and>
   high \<lparr>medium = 10, high = 4\<rparr> \<le> (5::real) \<and> (5::real) < medium \<lparr>medium = 10, high = 4\<rparr> \<and>
   a_level (assessComplexity integerToString 5 \<lparr>medium = 10, high = 4\<rparr>) = High \<and>
   a_level (assessComplexity integerToString 5 \<lparr>medium = 10, high = 4\<rparr>) \<noteq> Medium"
  using inverted_thresholds_high_between [of "\<lparr>medium = 10, high = 4\<rparr>" 5 integerToString]
  by simp

section \<open>Depth extraction\<close>

lemma foldl_columns:
  "foldl (\<lambda>charCount char. charCount + (if char = CHR 0x09 then u else 1)) a xs =
   a + (\<Sum>char\<leftarrow>xs. if char = CHR 0x09 then u else (1::nat))"
  by (induction xs arbitrary: a) simp_all

lemma leadingColumns_foldl:
  "leadingColumns u s =
   foldl (\<lambda>charCount char. charCount + (if char = CHR 0x09 then u else 1)) 0
     (takeWhile (\<lambda>c. c = CHR 0x09 \<or> c = CHR '' '') s)"
  unfolding foldl_columns by (induction s) simp_all

lemma leadingColumns_count:
  "leadingColumns u s =
     u * length (filter (\<lambda>c. c = CHR 0x09) (takeWhile (\<lambda>c. c = CHR 0x09 \<or> c = CHR '' '') s))
     + length (filter (\<lambda>c. c = CHR '' '') (takeWhile (\<lambda>c. c = CHR 0x09 \<or> c = CHR '' '') s))"
  by (induction s) simp_all

lemma computeIndentDepth_spec_depth: "computeIndentDepth s u = spec_depth s u"
  by (simp add: computeIndentDepth_def spec_depth_def leadingColumns_foldl)

lemma parseContent_loop_depth:
  "pl \<in> set (parseContent_loop cp u i ls) \<Longrightarrow>
     i < lineNumber pl \<and> lineNumber pl \<le> i + length ls \<and>
     depth pl = computeIndentDepth (ls ! (lineNumber pl - 1 - i)) u \<and>
     content pl = trim (ls ! (lineNumber pl - 1 - i))"
proof (induction ls arbitrary: i)
  case Nil
  then show ?case by simp
next
  case (Cons l ls)
  have tl: "i < lineNumber pl \<and> lineNumber pl \<le> i + length (l # ls) \<and>
     depth pl = computeIndentDepth ((l # ls) ! (lineNumber pl - 1 - i)) u \<and>
     content pl = trim ((l # ls) ! (lineNumber pl - 1 - i))"
    if "pl \<in> set (parseContent_loop cp u (i + 1) ls)"
  proof -
    from Cons.IH [OF that] have a: "i + 1 < lineNumber pl" "lineNumber pl \<le> i + 1 + length ls"
      and d: "depth pl = computeIndentDepth (ls ! (lineNumber pl - 1 - (i + 1))) u"
      and c: "content pl = trim (ls ! (lineNumber pl - 1 - (i + 1)))"
      by simp_all
    from a have "lineNumber pl - 1 - i = Suc (lineNumber pl - 1 - (i + 1))" by simp
    with a d c show ?thesis by simp
  qed
  from Cons.prems show ?case
    using tl by (auto split: if_splits)
qed

text \<open>
  C4. For an indent unit of at least 1, \<open>computeIndentDepth\<close> is the specification's depth:
  the columns of the leading tabs and spaces, a tab counting the unit and a space 1, divided
  by the unit and rounded down; which is the number of leading tabs plus the quotient of the
  number of leading spaces. \<open>parseContent\<close> computes every depth with the unit 1 when the
  detected type is tab, and otherwise with the detected amount, raised to 1 when it is 0.
\<close>

theorem computeIndentDepth_floor_columns:
  "(1 \<le> u \<longrightarrow>
      computeIndentDepth s u = spec_depth s u \<and>
      computeIndentDepth s u =
        length (filter (\<lambda>c. c = CHR 0x09) (takeWhile (\<lambda>c. c = CHR 0x09 \<or> c = CHR '' '') s))
        + length (filter (\<lambda>c. c = CHR '' '') (takeWhile (\<lambda>c. c = CHR 0x09 \<or> c = CHR '' '') s))
          div u) \<and>
   p_indentUnit (parseContent detectIndent txt opt) =
     (if indentType (detectIndent txt) = Some Tab then 1 else max 1 (amount (detectIndent txt))) \<and>
   (\<forall>pl \<in> set (p_lines (parseContent detectIndent txt opt)).
      1 \<le> lineNumber pl \<and> lineNumber pl \<le> length (split_lines txt) \<and>
      depth pl = computeIndentDepth (split_lines txt ! (lineNumber pl - 1))
                   (p_indentUnit (parseContent detectIndent txt opt)))"
proof -
  have a: "computeIndentDepth s u = spec_depth s u"
    by (rule computeIndentDepth_spec_depth)
  have b: "spec_depth s u =
        length (filter (\<lambda>c. c = CHR 0x09) (takeWhile (\<lambda>c. c = CHR 0x09 \<or> c = CHR '' '') s))
        + length (filter (\<lambda>c. c = CHR '' '') (takeWhile (\<lambda>c. c = CHR 0x09 \<or> c = CHR '' '') s))
          div u" if "1 \<le> u"
    using that unfolding spec_depth_def leadingColumns_count by simp
  have c: "p_indentUnit (parseContent detectIndent txt opt) =
     (if indentType (detectIndent txt) = Some Tab then 1 else max 1 (amount (detectIndent txt)))"
    by (simp add: parseContent_def indentUnitOf_def Let_def max_def)
  have d: "1 \<le> lineNumber pl \<and> lineNumber pl \<le> length (split_lines txt) \<and>
      depth pl = computeIndentDepth (split_lines txt ! (lineNumber pl - 1))
                   (p_indentUnit (parseContent detectIndent txt opt))"
    if "pl \<in> set (p_lines (parseContent detectIndent txt opt))" for pl
    using parseContent_loop_depth [of pl "commentPatternOf opt"
        "indentUnitOf (detectIndent txt)" 0 "split_lines txt"] that
    by (simp add: parseContent_def Let_def)
  from a b c d show ?thesis by simp
qed

theorem computeIndentDepth_floor_columns_witness:
  "(1::nat) \<le> 2 \<and>
   computeIndentDepth [CHR 0x09, CHR '' '', CHR '' '', CHR '' '', CHR ''x'', CHR '' ''] 2 = 2 \<and>
   spec_depth [CHR 0x09, CHR '' '', CHR '' '', CHR '' '', CHR ''x'', CHR '' ''] 2 = 2 \<and>
   p_indentUnit (parseContent detectsNothing ''a'' Omitted) = 1 \<and>
   p_lines (parseContent (detectsSpaces 4)
      (join_lines [''a'', ''        b'']) Omitted)
     = [\<lparr>lineNumber = 1, depth = 0, content = ''a''\<rparr>,
        \<lparr>lineNumber = 2, depth = 2, content = ''b''\<rparr>]"
proof -
  have p: "p_lines (parseContent (detectsSpaces 4)
      (join_lines [''a'', ''        b'']) Omitted)
     = [\<lparr>lineNumber = 1, depth = 0, content = ''a''\<rparr>,
        \<lparr>lineNumber = 2, depth = 2, content = ''b''\<rparr>]"
    by code_simp
  have s: "spec_depth [CHR 0x09, CHR '' '', CHR '' '', CHR '' '', CHR ''x'', CHR '' ''] 2 = 2"
    by (simp add: spec_depth_def)
  show ?thesis
    using computeIndentDepth_floor_columns
      [of 2 "[CHR 0x09, CHR '' '', CHR '' '', CHR '' '', CHR ''x'', CHR '' '']"
          detectsNothing "''a''" Omitted] p s
    by (simp add: detectsNothing_def)
qed

section \<open>Empty and white-space-only input\<close>

lemma split_lines_chars: "\<forall>l \<in> set (split_lines s). set l \<subseteq> set s"
proof (induction s)
  case Nil
  show ?case by simp
next
  case (Cons c cs)
  show ?case
  proof (cases "split_lines cs")
    case Nil
    then show ?thesis by simp
  next
    case (Cons a list)
    with Cons.IH have "set a \<subseteq> set cs" and "\<forall>l \<in> set list. set l \<subseteq> set cs"
      by simp_all
    with Cons show ?thesis by auto
  qed
qed

lemma trim_whitespace:
  assumes "\<forall>c \<in> set l. isWhiteSpace c"
  shows "trim l = []"
  using assms by (auto simp: trim_def dest: set_dropWhileD)

lemma parseContent_loop_blank:
  "\<forall>l \<in> set ls. trim l = [] \<Longrightarrow> parseContent_loop cp u i ls = []"
  by (induction ls arbitrary: i) simp_all

lemma startsWith_Cons: "startsWith l (c # p) \<Longrightarrow> l \<noteq> [] \<and> hd l = c"
  by (cases l) (simp_all add: startsWith_def)

lemma whitespace_not_included:
  assumes "\<forall>c \<in> set l. isWhiteSpace c"
  shows "\<not> shouldIncludeLine l incl"
proof -
  have "\<not> startsWith l ''+''"
  proof
    assume "startsWith l ''+''"
    then have "l \<noteq> []" "hd l = CHR ''+''" using startsWith_Cons by blast+
    then have "CHR ''+'' \<in> set l" using hd_in_set by metis
    with assms have "isWhiteSpace CHR ''+''" by blast
    then show False by (simp add: isWhiteSpace_def)
  qed
  moreover have "\<not> startsWith l ''-''"
  proof
    assume "startsWith l ''-''"
    then have "l \<noteq> []" "hd l = CHR ''-''" using startsWith_Cons by blast+
    then have "CHR ''-'' \<in> set l" using hd_in_set by metis
    with assms have "isWhiteSpace CHR ''-''" by blast
    then show False by (simp add: isWhiteSpace_def)
  qed
  ultimately show ?thesis by (simp add: shouldIncludeLine_def)
qed

lemma parseDiff_loop_none:
  "\<forall>l \<in> set ls. \<not> shouldIncludeLine l incl \<Longrightarrow> parseDiff_loop incl cp u k ls = []"
  by (induction ls arbitrary: k) simp_all

lemma parseContent_whitespace:
  assumes "\<forall>c \<in> set txt. isWhiteSpace c"
  shows "p_lines (parseContent di txt opt) = []"
proof -
  have "\<forall>l \<in> set (split_lines txt). trim l = []"
    using assms split_lines_chars trim_whitespace by blast
  then show ?thesis
    by (simp add: parseContent_def Let_def parseContent_loop_blank)
qed

lemma parseDiff_whitespace:
  assumes "\<forall>c \<in> set txt. isWhiteSpace c"
  shows "p_lines (parseDiff di txt incl opt) = []"
proof -
  have "\<forall>l \<in> set (split_lines txt). \<not> shouldIncludeLine l incl"
    using assms split_lines_chars whitespace_not_included by blast
  then show ?thesis
    by (simp add: parseDiff_def Let_def parseDiff_loop_none)
qed

lemma computeStatistics_Nil:
  "computeStatistics [] =
     \<lparr>s_score = 0, s_sum = 0, s_mean = 0, s_variance = 0, s_stdDev = 0, s_median = 0, s_max = 0\<rparr>"
  by (simp add: computeStatistics_def computeStatisticsOn_def)

lemma buildResult_Nil:
  "scoreOf (buildResult ts [] b) = 0 \<and>
   levelOf (buildResult ts [] b) = a_level (assessComplexity ts 0 (resolveThresholds (userThresholds b))) \<and>
   (verboseOf (buildResult ts [] b) = None \<longleftrightarrow> \<not> b_verbose b \<and> \<not> b_includeLines b) \<and>
   (\<forall>v. verboseOf (buildResult ts [] b) = Some v \<longrightarrow>
      lineCount v = 0 \<and> sum_value v = 0 \<and> mean v = 0 \<and> variance v = 0 \<and> stdDev v = 0 \<and>
      median v = 0 \<and> max_value v = 0)"
  by (simp add: buildResult_def computeStatistics_Nil Let_def scoreOf_def levelOf_def verboseOf_def
      ComplexityResultVerbose.truncate_def)

lemma analyzeComplexity_whitespace:
  assumes "\<forall>c \<in> set txt. isWhiteSpace c"
  shows "analyzeComplexity di ts txt opts =
         buildResult ts []
           \<lparr>b_verbose = (case verbose opts of None \<Rightarrow> False | Some b \<Rightarrow> b),
            b_includeLines = (case includeLines opts of None \<Rightarrow> False | Some b \<Rightarrow> b),
            userThresholds = thresholds opts\<rparr>"
  by (simp add: analyzeComplexity_def parseContent_whitespace [OF assms])

lemma analyzeDiffComplexity_whitespace:
  assumes "\<forall>c \<in> set txt. isWhiteSpace c"
  shows "analyzeDiffComplexity di ts txt opts =
         buildResult ts []
           \<lparr>b_verbose = (case verbose opts of None \<Rightarrow> False | Some b \<Rightarrow> b),
            b_includeLines = (case includeLines opts of None \<Rightarrow> False | Some b \<Rightarrow> b),
            userThresholds = thresholds opts\<rparr>"
  by (simp add: analyzeDiffComplexity_def parseDiff_whitespace [OF assms])

lemma assess_zero_low:
  "0 < medium t \<Longrightarrow> 0 < high t \<Longrightarrow> a_level (assessComplexity ts 0 t) = Low"
  by (simp add: assessComplexity_def)

text \<open>
  C5, as stated, fails on the level: the thresholds are the caller's, and with
  \<open>medium = 0\<close> the score 0 of the empty input is assessed medium.
\<close>

theorem whitespace_input_level_counterexample:
  "levelOf (analyzeComplexity detectsNothing integerToString []
      \<lparr>commentPattern = Omitted, thresholds = Some \<lparr>p_medium = Some 0, p_high = None\<rparr>,
       verbose = None, includeLines = None\<rparr>) = Medium"
  by (simp add: analyzeComplexity_def parseContent_def trim_def buildResult_def
      computeStatistics_Nil assessComplexity_def resolveThresholds_def DEFAULT_THRESHOLDS_def
      levelOf_def Let_def)

text \<open>
  C5, as amended. For every input made of white space only (the empty string included),
  \<open>analyzeComplexity\<close> and \<open>analyzeDiffComplexity\<close> return a result with score 0; the level is
  low whenever both resolved thresholds are above 0, as the defaults 4 and 10 are; a result
  asked for with \<open>verbose\<close> has the verbose fields; and whenever the verbose fields are there,
  \<open>lineCount\<close>, \<open>sum\<close>, \<open>mean\<close>, \<open>variance\<close>, \<open>stdDev\<close>, \<open>median\<close> and \<open>max\<close> are all 0.
\<close>

theorem whitespace_input_zero_result:
  assumes "\<forall>c \<in> set txt. isWhiteSpace c"
  shows
    "scoreOf (analyzeComplexity di ts txt opts) = 0 \<and>
     scoreOf (analyzeDiffComplexity di ts txt dopts) = 0 \<and>
     (0 < medium (resolveThresholds (thresholds opts)) \<and>
      0 < high (resolveThresholds (thresholds opts)) \<longrightarrow>
        levelOf (analyzeComplexity di ts txt opts) = Low) \<and>
     (0 < medium (resolveThresholds (thresholds dopts)) \<and>
      0 < high (resolveThresholds (thresholds dopts)) \<longrightarrow>
        levelOf (analyzeDiffComplexity di ts txt dopts) = Low) \<and>
     (verbose opts = Some True \<longrightarrow> verboseOf (analyzeComplexity di ts txt opts) \<noteq> None) \<and>
     (verbose dopts = Some True \<longrightarrow>
        verboseOf (analyzeDiffComplexity di ts txt dopts) \<noteq> None) \<and>
     (\<forall>v. verboseOf (analyzeComplexity di ts txt opts) = Some v \<longrightarrow>
        lineCount v = 0 \<and> sum_value v = 0 \<and> mean v = 0 \<and> variance v = 0 \<and> stdDev v = 0 \<and>
        median v = 0 \<and> max_value v = 0) \<and>
     (\<forall>v. verboseOf (analyzeDiffComplexity di ts txt dopts) = Some v \<longrightarrow>
        lineCount v = 0 \<and> sum_value v = 0 \<and> mean v = 0 \<and> variance v = 0 \<and> stdDev v = 0 \<and>
        median v = 0 \<and> max_value v = 0)"
  unfolding analyzeComplexity_whitespace [OF assms] analyzeDiffComplexity_whitespace [OF assms]
  using buildResult_Nil [of ts] assess_zero_low [of _ ts]
  by simp

theorem whitespace_input_zero_result_witness:
  "isWhiteSpace CHR '' '' \<and> isWhiteSpace (CHR 0x0A) \<and> isWhiteSpace (CHR 0x09) \<and>
   scoreOf (analyzeComplexity detectsNothing integerToString
      [CHR '' '', CHR 0x0A, CHR 0x09]
      \<lparr>commentPattern = Omitted, thresholds = None, verbose = Some True,
       includeLines = None\<rparr>) = 0 \<and>
   levelOf (analyzeComplexity detectsNothing integerToString
      [CHR '' '', CHR 0x0A, CHR 0x09]
      \<lparr>commentPattern = Omitted, thresholds = None, verbose = Some True,
       includeLines = None\<rparr>) = Low \<and>
   verboseOf (analyzeComplexity detectsNothing integerToString
      [CHR '' '', CHR 0x0A, CHR 0x09]
      \<lparr>commentPattern = Omitted, thresholds = None, verbose = Some True,
       includeLines = None\<rparr>) \<noteq> None \<and>
   levelOf (analyzeDiffComplexity detectsNothing integerToString
      [CHR '' '', CHR 0x0A, CHR 0x09]
      \<lparr>commentPattern = Omitted, thresholds = None, verbose = Some True,
       includeLines = None, include_sel = None\<rparr>) = Low \<and>
   verboseOf (analyzeDiffComplexity detectsNothing integerToString
      [CHR '' '', CHR 0x0A, CHR 0x09]
      \<lparr>commentPattern = Omitted, thresholds = None, verbose = Some True,
       includeLines = None, include_sel = None\<rparr>) \<noteq> None"
proof -
  have ws: "\<forall>c \<in> set [CHR '' '', CHR 0x0A, CHR 0x09]. isWhiteSpace c"
    by (simp add: isWhiteSpace_def)
  have t: "medium (resolveThresholds None) = 4" "high (resolveThresholds None) = 10"
    by (simp_all add: resolveThresholds_def DEFAULT_THRESHOLDS_def)
  show ?thesis
    using ws t whitespace_input_zero_result [OF ws,
        of detectsNothing integerToString
           "\<lparr>commentPattern = Omitted, thresholds = None, verbose = Some True,
             includeLines = None\<rparr>"
           "\<lparr>commentPattern = Omitted, thresholds = None, verbose = Some True,
             includeLines = None, include_sel = None\<rparr>"]
    by simp
qed

section \<open>Diff analysis\<close>

lemma parseDiff_loop_Cons:
  "parseDiff_loop incl cp u k (l # ls) =
     (if passesGate incl l then
        (if isCounted cp l then [parsedDiffLine u (Suc k) l] else [])
        @ parseDiff_loop incl cp u (Suc k) ls
      else parseDiff_loop incl cp u k ls)"
  by (simp add: passesGate_def isCounted_def parsedDiffLine_def)

lemma parseDiff_loop_filter:
  assumes "\<And>l. passesGate incl l \<Longrightarrow> P l"
  shows "parseDiff_loop incl cp u k (filter P ls) = parseDiff_loop incl cp u k ls"
proof (induction ls arbitrary: k)
  case Nil
  show ?case by simp
next
  case (Cons l ls)
  show ?case
  proof (cases "P l")
    case True
    then show ?thesis
      by (simp only: filter.simps if_True parseDiff_loop_Cons Cons.IH)
  next
    case False
    with assms have "\<not> passesGate incl l" by blast
    with False show ?thesis
      by (simp only: filter.simps if_False parseDiff_loop_Cons Cons.IH)
  qed
qed

lemma parseDiff_loop_enumerate:
  "parseDiff_loop incl cp u k ls =
     map (\<lambda>(n, l). parsedDiffLine u n l)
       (filter (\<lambda>(n, l). isCounted cp l) (enumerate (Suc k) (filter (passesGate incl) ls)))"
proof (induction ls arbitrary: k)
  case Nil
  show ?case by simp
next
  case (Cons l ls)
  show ?case
    by (simp only: parseDiff_loop_Cons Cons.IH) (simp add: enumerate_simps)
qed

lemma parseDiff_loop_above:
  "pl \<in> set (parseDiff_loop incl cp u k ls) \<Longrightarrow> k < lineNumber pl"
proof (induction ls arbitrary: k)
  case Nil
  then show ?case by simp
next
  case (Cons l ls)
  from Cons.prems show ?case
    unfolding parseDiff_loop_Cons
    using Cons.IH [of k] Cons.IH [of "Suc k"]
    by (auto simp: parsedDiffLine_def split: if_splits dest: Suc_lessD)
qed

lemma parseDiff_loop_increasing:
  "sorted_wrt (<) (map lineNumber (parseDiff_loop incl cp u k ls))"
proof (induction ls arbitrary: k)
  case Nil
  show ?case by simp
next
  case (Cons l ls)
  show ?case
    unfolding parseDiff_loop_Cons
    using Cons.IH [of k] Cons.IH [of "Suc k"] parseDiff_loop_above [of _ incl cp u "Suc k" ls]
    by (auto simp: parsedDiffLine_def)
qed

lemma parseDiff_loop_length:
  "length (parseDiff_loop incl cp u k ls) =
     length (filter (\<lambda>l. passesGate incl l \<and> isCounted cp l) ls)"
  by (induction ls arbitrary: k) (simp_all only: parseDiff_loop_Cons, simp_all)

lemma startsWith_plus_minus:
  "startsWith l ''+'' \<longleftrightarrow> (\<exists>r. l = CHR ''+'' # r)"
  "startsWith l ''-'' \<longleftrightarrow> (\<exists>r. l = CHR ''-'' # r)"
  by (cases l; simp add: startsWith_def)+

lemma shouldIncludeLine_cases:
  "shouldIncludeLine l Additions \<longleftrightarrow> startsWith l ''+''"
  "shouldIncludeLine l Deletions \<longleftrightarrow> startsWith l ''-''"
  "shouldIncludeLine l Both \<longleftrightarrow> startsWith l ''+'' \<or> startsWith l ''-''"
  by (auto simp: shouldIncludeLine_def startsWith_plus_minus)

lemma shouldIncludeLine_marker:
  "shouldIncludeLine l incl \<Longrightarrow> startsWith l ''+'' \<or> startsWith l ''-''"
  by (cases incl) (simp_all add: shouldIncludeLine_cases)

lemma in_enumerate_snd: "(n, r) \<in> set (enumerate k xs) \<Longrightarrow> r \<in> set xs"
  by (auto simp: enumerate_eq_zip dest: set_zip_rightD)

lemma p_lines_parseDiff:
  "p_lines (parseDiff di d incl opt) =
     parseDiff_loop incl (commentPatternOf opt) (p_indentUnit (parseDiff di d incl opt)) 0
       (split_lines d)"
  by (simp add: parseDiff_def Let_def)

lemma lineCount_buildResult:
  "b_verbose b \<Longrightarrow> map_option lineCount (verboseOf (buildResult ts parsed b)) = Some (length parsed)"
  by (simp add: buildResult_def Let_def verboseOf_def ComplexityResultVerbose.truncate_def)

text \<open>
  C6. A line passes the inclusion test under \<open>additions\<close> exactly when it starts with \<open>+\<close>,
  under \<open>deletions\<close> exactly when it starts with \<open>-\<close>, under \<open>both\<close> exactly when it starts
  with either; a line starting with neither passes under no selector, and every parsed line
  comes from a raw line that starts with one of the two markers. Leaving \<open>include\<close> out is
  selecting the additions. With \<open>a\<close> the number of raw lines that are no diff header, start
  with \<open>+\<close> and are neither blank nor a comment after the marker, and \<open>b\<close> the same number
  for \<open>-\<close>, the \<open>lineCount\<close> of a verbose diff analysis is \<open>a\<close> by default and under
  \<open>additions\<close>, \<open>b\<close> under \<open>deletions\<close> and \<open>a + b\<close> under \<open>both\<close>: 2 and 4 for a hunk
  with two lines of each kind.
\<close>

theorem diff_line_classification:
  "(shouldIncludeLine l Additions \<longleftrightarrow> startsWith l ''+'') \<and>
   (shouldIncludeLine l Deletions \<longleftrightarrow> startsWith l ''-'') \<and>
   (shouldIncludeLine l Both \<longleftrightarrow> startsWith l ''+'' \<or> startsWith l ''-'') \<and>
   (\<not> startsWith l ''+'' \<and> \<not> startsWith l ''-'' \<longrightarrow> \<not> shouldIncludeLine l incl) \<and>
   (\<forall>pl \<in> set (p_lines (parseDiff di d incl opt)).
      \<exists>r \<in> set (split_lines d).
        (startsWith r ''+'' \<or> startsWith r ''-'') \<and> shouldIncludeLine r incl \<and>
        content pl = trim (drop 1 r)) \<and>
   analyzeDiffComplexity di ts d (opts\<lparr>include_sel := None\<rparr>) =
     analyzeDiffComplexity di ts d (opts\<lparr>include_sel := Some Additions\<rparr>) \<and>
   map_option lineCount
     (verboseOf (analyzeDiffComplexity di ts d (opts\<lparr>verbose := Some True, include_sel := None\<rparr>)))
     = Some (length (filter (\<lambda>r. \<not> isDiffHeader r \<and> startsWith r ''+'' \<and>
                                  isCounted (commentPatternOf (commentPattern opts)) r)
                       (split_lines d))) \<and>
   map_option lineCount
     (verboseOf (analyzeDiffComplexity di ts d
        (opts\<lparr>verbose := Some True, include_sel := Some Additions\<rparr>)))
     = Some (length (filter (\<lambda>r. \<not> isDiffHeader r \<and> startsWith r ''+'' \<and>
                                  isCounted (commentPatternOf (commentPattern opts)) r)
                       (split_lines d))) \<and>
   map_option lineCount
     (verboseOf (analyzeDiffComplexity di ts d
        (opts\<lparr>verbose := Some True, include_sel := Some Deletions\<rparr>)))
     = Some (length (filter (\<lambda>r. \<not> isDiffHeader r \<and> startsWith r ''-'' \<and>
                                  isCounted (commentPatternOf (commentPattern opts)) r)
                       (split_lines d))) \<and>
   map_option lineCount
     (verboseOf (analyzeDiffComplexity di ts d
        (opts\<lparr>verbose := Some True, include_sel := Some Both\<rparr>)))
     = Some (length (filter (\<lambda>r. \<not> isDiffHeader r \<and> startsWith r ''+'' \<and>
                                  isCounted (commentPatternOf (commentPattern opts)) r)
                       (split_lines d))
             + length (filter (\<lambda>r. \<not> isDiffHeader r \<and> startsWith r ''-'' \<and>
                                  isCounted (commentPatternOf (commentPattern opts)) r)
                       (split_lines d)))"
proof -
  let ?cp = "commentPatternOf (commentPattern opts)"
  let ?A = "length (filter (\<lambda>r. \<not> isDiffHeader r \<and> startsWith r ''+'' \<and> isCounted ?cp r)
                      (split_lines d))"
  let ?D = "length (filter (\<lambda>r. \<not> isDiffHeader r \<and> startsWith r ''-'' \<and> isCounted ?cp r)
                      (split_lines d))"
  have c4: "\<not> startsWith l ''+'' \<and> \<not> startsWith l ''-'' \<longrightarrow> \<not> shouldIncludeLine l incl"
    using shouldIncludeLine_marker by blast
  have c5: "\<exists>r \<in> set (split_lines d).
        (startsWith r ''+'' \<or> startsWith r ''-'') \<and> shouldIncludeLine r incl \<and>
        content pl = trim (drop 1 r)"
    if "pl \<in> set (p_lines (parseDiff di d incl opt))" for pl
  proof -
    from that obtain n r where
      nr: "(n, r) \<in> set (enumerate (Suc 0) (filter (passesGate incl) (split_lines d)))"
      and pl: "pl = parsedDiffLine (p_indentUnit (parseDiff di d incl opt)) n r"
      unfolding p_lines_parseDiff parseDiff_loop_enumerate by auto
    from nr have "r \<in> set (filter (passesGate incl) (split_lines d))"
      by (rule in_enumerate_snd)
    then have "r \<in> set (split_lines d)" and "shouldIncludeLine r incl"
      by (simp_all add: passesGate_def)
    with pl shouldIncludeLine_marker [of r incl] show ?thesis
      by (auto simp: parsedDiffLine_def)
  qed
  have c6: "analyzeDiffComplexity di ts d (opts\<lparr>include_sel := None\<rparr>) =
     analyzeDiffComplexity di ts d (opts\<lparr>include_sel := Some Additions\<rparr>)"
    by (simp add: analyzeDiffComplexity_def)
  have n: "map_option lineCount
     (verboseOf (analyzeDiffComplexity di ts d (opts\<lparr>verbose := Some True, include_sel := isel\<rparr>)))
     = Some (length (filter (\<lambda>r. \<not> isDiffHeader r \<and>
                 shouldIncludeLine r (case isel of None \<Rightarrow> Additions | Some i \<Rightarrow> i) \<and>
                 isCounted ?cp r) (split_lines d)))" for isel
    by (simp add: analyzeDiffComplexity_def Let_def lineCount_buildResult p_lines_parseDiff
        parseDiff_loop_length passesGate_def)
  have both: "length (filter (\<lambda>r. \<not> isDiffHeader r \<and> shouldIncludeLine r Both \<and> isCounted cp r) ls) =
     length (filter (\<lambda>r. \<not> isDiffHeader r \<and> startsWith r ''+'' \<and> isCounted cp r) ls)
     + length (filter (\<lambda>r. \<not> isDiffHeader r \<and> startsWith r ''-'' \<and> isCounted cp r) ls)"
    for cp ls
    by (induction ls) (auto simp: shouldIncludeLine_cases startsWith_plus_minus)
  have c7: "map_option lineCount
     (verboseOf (analyzeDiffComplexity di ts d (opts\<lparr>verbose := Some True, include_sel := None\<rparr>)))
     = Some ?A"
    using n [of None] by (simp add: shouldIncludeLine_cases)
  have c8: "map_option lineCount
     (verboseOf (analyzeDiffComplexity di ts d
        (opts\<lparr>verbose := Some True, include_sel := Some Additions\<rparr>))) = Some ?A"
    using n [of "Some Additions"] by (simp add: shouldIncludeLine_cases)
  have c9: "map_option lineCount
     (verboseOf (analyzeDiffComplexity di ts d
        (opts\<lparr>verbose := Some True, include_sel := Some Deletions\<rparr>))) = Some ?D"
    using n [of "Some Deletions"] by (simp add: shouldIncludeLine_cases)
  have c10: "map_option lineCount
     (verboseOf (analyzeDiffComplexity di ts d
        (opts\<lparr>verbose := Some True, include_sel := Some Both\<rparr>))) = Some (?A + ?D)"
    using n [of "Some Both"] by (simp add: both)
  from shouldIncludeLine_cases [of l] c4 c5 c6 c7 c8 c9 c10 show ?thesis
    by blast
qed

theorem diff_line_classification_witness:
  "map_option lineCount
     (verboseOf (analyzeDiffComplexity (detectsSpaces 2)
        integerToString
        (join_lines [''@@ -1,3 +1,3 @@'', ''-old line'', ''-  old nested'', ''+new line'',
                     ''+    new deeply nested''])
        \<lparr>commentPattern = Omitted, thresholds = None, verbose = Some True,
         includeLines = None, include_sel = None\<rparr>)) = Some 2 \<and>
   map_option lineCount
     (verboseOf (analyzeDiffComplexity (detectsSpaces 2)
        integerToString
        (join_lines [''@@ -1,3 +1,3 @@'', ''-old line'', ''-  old nested'', ''+new line'',
                     ''+    new deeply nested''])
        \<lparr>commentPattern = Omitted, thresholds = None, verbose = Some True,
         includeLines = None, include_sel = Some Both\<rparr>)) = Some 4 \<and>
   \<not> startsWith '' context'' ''+'' \<and> \<not> startsWith '' context'' ''-'' \<and>
   \<not> shouldIncludeLine '' context'' Both"
proof -
  let ?d = "join_lines [''@@ -1,3 +1,3 @@'', ''-old line'', ''-  old nested'', ''+new line'',
                     ''+    new deeply nested'']"
  let ?o = "\<lparr>commentPattern = Omitted, thresholds = None, verbose = Some True,
         includeLines = None, include_sel = None\<rparr>"
  have a: "length (filter (\<lambda>r. \<not> isDiffHeader r \<and> startsWith r ''+'' \<and>
                                  isCounted (commentPatternOf Omitted) r)
                       (split_lines ?d)) = 2"
    by code_simp
  have b: "length (filter (\<lambda>r. \<not> isDiffHeader r \<and> startsWith r ''-'' \<and>
                                  isCounted (commentPatternOf Omitted) r)
                       (split_lines ?d)) = 2"
    by code_simp
  have c: "\<not> startsWith '' context'' ''+'' \<and> \<not> startsWith '' context'' ''-''"
    by (simp add: startsWith_def)
  show ?thesis
    using diff_line_classification
        [where l = "'' context''" and incl = Both and d = ?d and opts = ?o
           and di = "detectsSpaces 2" and ts = integerToString and opt = Omitted]
      a b c
    by simp
qed

text \<open>
  C7. The line numbers of a diff analysis come from one counter: the \<open>n\<close>-th raw line that
  passes the header and inclusion gate has the number \<open>n\<close>, whether or not it is then
  dropped as blank or as a comment, and the parsed lines are those of the numbered lines
  that are counted. So the numbers are strictly increasing, lie between 1 and the number of
  lines that passed the gate, and may have gaps; and the parsed lines are the same when
  every line that fails the gate (the hunk headers with the file positions, the context
  lines) is removed from the input of the loop.
\<close>

theorem parseDiff_line_numbers:
  "map lineNumber (p_lines (parseDiff di d incl opt)) =
     map fst (filter (\<lambda>(n, l). isCounted (commentPatternOf opt) l)
                (enumerate 1 (filter (passesGate incl) (split_lines d)))) \<and>
   sorted_wrt (<) (map lineNumber (p_lines (parseDiff di d incl opt))) \<and>
   (\<forall>pl \<in> set (p_lines (parseDiff di d incl opt)).
      1 \<le> lineNumber pl \<and>
      lineNumber pl \<le> length (filter (passesGate incl) (split_lines d))) \<and>
   p_lines (parseDiff di d incl opt) =
     parseDiff_loop incl (commentPatternOf opt) (p_indentUnit (parseDiff di d incl opt)) 0
       (filter (passesGate incl) (split_lines d)) \<and>
   map lineNumber
     (p_lines (parseDiff di (join_lines [''+a'', ''+'', ''+// note'', ''+b'']) Additions Omitted))
     = [1, 4]"
proof -
  let ?u = "p_indentUnit (parseDiff di d incl opt)"
  let ?g = "filter (passesGate incl) (split_lines d)"
  have e: "p_lines (parseDiff di d incl opt) =
     map (\<lambda>(n, l). parsedDiffLine ?u n l)
       (filter (\<lambda>(n, l). isCounted (commentPatternOf opt) l) (enumerate (Suc 0) ?g))"
    unfolding p_lines_parseDiff parseDiff_loop_enumerate ..
  have c1: "map lineNumber (p_lines (parseDiff di d incl opt)) =
     map fst (filter (\<lambda>(n, l). isCounted (commentPatternOf opt) l) (enumerate 1 ?g))"
    unfolding e by (simp add: parsedDiffLine_def case_prod_beta comp_def)
  have c2: "sorted_wrt (<) (map lineNumber (p_lines (parseDiff di d incl opt)))"
    unfolding p_lines_parseDiff by (rule parseDiff_loop_increasing)
  have c3: "1 \<le> lineNumber pl \<and> lineNumber pl \<le> length ?g"
    if "pl \<in> set (p_lines (parseDiff di d incl opt))" for pl
  proof -
    from that have "lineNumber pl \<in> set (map lineNumber (p_lines (parseDiff di d incl opt)))"
      by simp
    then obtain n l where "(n, l) \<in> set (enumerate 1 ?g)" and "lineNumber pl = n"
      unfolding c1 by auto
    then show ?thesis
      by (auto simp: in_set_enumerate_eq)
  qed
  have c4: "p_lines (parseDiff di d incl opt) =
     parseDiff_loop incl (commentPatternOf opt) ?u 0 ?g"
    unfolding p_lines_parseDiff by (rule parseDiff_loop_filter [symmetric]) simp
  have c5: "map lineNumber
     (p_lines (parseDiff di (join_lines [''+a'', ''+'', ''+// note'', ''+b'']) Additions Omitted))
     = [1, 4]"
    by code_simp
  from c1 c2 c3 c4 c5 show ?thesis by blast
qed

theorem parseDiff_line_numbers_witness:
  "p_lines (parseDiff (detectsSpaces 2)
      (join_lines [''--- a/src/app.ts'', ''+++ b/src/app.ts'', ''@@ -10,6 +40,12 @@ f() {'',
                   ''   context'', ''+  if (x) {'', ''+'', ''+    // note'', ''-    old();'',
                   ''+    y();'', ''+  }''])
      Additions Omitted)
     = [\<lparr>lineNumber = 1, depth = 1, content = ''if (x) {''\<rparr>,
        \<lparr>lineNumber = 4, depth = 2, content = ''y();''\<rparr>,
        \<lparr>lineNumber = 5, depth = 1, content = ''}''\<rparr>] \<and>
   length (filter (passesGate Additions)
     (split_lines (join_lines [''--- a/src/app.ts'', ''+++ b/src/app.ts'',
                   ''@@ -10,6 +40,12 @@ f() {'',
                   ''   context'', ''+  if (x) {'', ''+'', ''+    // note'', ''-    old();'',
                   ''+    y();'', ''+  }'']))) = 5 \<and>
   sorted_wrt (<) (map lineNumber
     (p_lines (parseDiff (detectsSpaces 2)
      (join_lines [''--- a/src/app.ts'', ''+++ b/src/app.ts'', ''@@ -10,6 +40,12 @@ f() {'',
                   ''   context'', ''+  if (x) {'', ''+'', ''+    // note'', ''-    old();'',
                   ''+    y();'', ''+  }''])
      Additions Omitted)))"
proof -
  let ?d = "join_lines [''--- a/src/app.ts'', ''+++ b/src/app.ts'', ''@@ -10,6 +40,12 @@ f() {'',
                   ''   context'', ''+  if (x) {'', ''+'', ''+    // note'', ''-    old();'',
                   ''+    y();'', ''+  }'']"
  have p: "p_lines (parseDiff (detectsSpaces 2) ?d Additions Omitted)
     = [\<lparr>lineNumber = 1, depth = 1, content = ''if (x) {''\<rparr>,
        \<lparr>lineNumber = 4, depth = 2, content = ''y();''\<rparr>,
        \<lparr>lineNumber = 5, depth = 1, content = ''}''\<rparr>]"
    by code_simp
  have g: "length (filter (passesGate Additions) (split_lines ?d)) = 5"
    by code_simp
  have s: "sorted_wrt (<) (map lineNumber
     (p_lines (parseDiff (detectsSpaces 2) ?d Additions Omitted)))"
    using parseDiff_line_numbers
        [where di = "detectsSpaces 2" and d = ?d
           and incl = Additions and opt = Omitted]
    by (rule conjunct1 [OF conjunct2])
  from p g s show ?thesis by (intro conjI)
qed

text \<open>
  C8. In diff analysis the indent unit is taken from the detection run on the lines that
  start with \<open>+\<close> or \<open>-\<close> but not with \<open>+++\<close> or \<open>---\<close>, each without its first character,
  joined by line feeds; whatever the detector, the unit is the same for every include
  selector and every comment pattern; and every depth is computed with that unit.
\<close>

theorem parseDiff_detection_input:
  "p_indentUnit (parseDiff di d incl opt) =
     indentUnitOf (di (join_lines (map (drop 1)
       (filter (\<lambda>l. (startsWith l ''+'' \<or> startsWith l ''-'') \<and>
                     \<not> startsWith l ''+++'' \<and> \<not> startsWith l ''---'')
          (split_lines d))))) \<and>
   p_indentUnit (parseDiff di d incl opt) = p_indentUnit (parseDiff di d incl' opt') \<and>
   (\<forall>pl \<in> set (p_lines (parseDiff di d incl opt)).
      \<exists>r \<in> set (split_lines d).
        depth pl = computeIndentDepth (drop 1 r) (p_indentUnit (parseDiff di d incl opt)))"
proof -
  have a: "p_indentUnit (parseDiff di d incl opt) =
     indentUnitOf (di (join_lines (map (drop 1)
       (filter (\<lambda>l. (startsWith l ''+'' \<or> startsWith l ''-'') \<and>
                     \<not> startsWith l ''+++'' \<and> \<not> startsWith l ''---'')
          (split_lines d)))))" for incl opt
    by (simp add: parseDiff_def Let_def extractDiffCodeLines_def conj_commute)
  have c: "\<exists>r \<in> set (split_lines d).
        depth pl = computeIndentDepth (drop 1 r) (p_indentUnit (parseDiff di d incl opt))"
    if "pl \<in> set (p_lines (parseDiff di d incl opt))" for pl
  proof -
    from that obtain n r where
      nr: "(n, r) \<in> set (enumerate (Suc 0) (filter (passesGate incl) (split_lines d)))"
      and pl: "pl = parsedDiffLine (p_indentUnit (parseDiff di d incl opt)) n r"
      unfolding p_lines_parseDiff parseDiff_loop_enumerate by auto
    from nr have "r \<in> set (filter (passesGate incl) (split_lines d))"
      by (rule in_enumerate_snd)
    with pl show ?thesis
      by (auto simp: parsedDiffLine_def)
  qed
  from a [of incl opt] a [of incl' opt'] c show ?thesis
    by (simp only: simp_thms) blast
qed

theorem parseDiff_detection_input_witness:
  "p_indentUnit (parseDiff detectsLength
      (join_lines [''--- a/f'', ''+++ b/f'', ''@@ -1 +1 @@'', '' ctx'', ''+ab'', ''-cde''])
      Additions Omitted) = 6 \<and>
   join_lines (map (drop 1)
       (filter (\<lambda>l. (startsWith l ''+'' \<or> startsWith l ''-'') \<and>
                     \<not> startsWith l ''+++'' \<and> \<not> startsWith l ''---'')
          (split_lines
            (join_lines [''--- a/f'', ''+++ b/f'', ''@@ -1 +1 @@'', '' ctx'', ''+ab'', ''-cde'']))))
     = join_lines [''ab'', ''cde'']"
proof -
  let ?d = "join_lines [''--- a/f'', ''+++ b/f'', ''@@ -1 +1 @@'', '' ctx'', ''+ab'', ''-cde'']"
  let ?di = detectsLength
  have j: "join_lines (map (drop 1)
       (filter (\<lambda>l. (startsWith l ''+'' \<or> startsWith l ''-'') \<and>
                     \<not> startsWith l ''+++'' \<and> \<not> startsWith l ''---'')
          (split_lines ?d))) = join_lines [''ab'', ''cde'']"
    by code_simp
  have u: "indentUnitOf (?di (join_lines [''ab'', ''cde''])) = 6"
    by (simp add: indentUnitOf_def detectsLength_def)
  have "p_indentUnit (parseDiff ?di ?d Additions Omitted) =
     indentUnitOf (?di (join_lines (map (drop 1)
       (filter (\<lambda>l. (startsWith l ''+'' \<or> startsWith l ''-'') \<and>
                     \<not> startsWith l ''+++'' \<and> \<not> startsWith l ''---'')
          (split_lines ?d)))))"
    using parseDiff_detection_input
        [where di = ?di and d = ?d and incl = Additions and opt = Omitted]
    by (rule conjunct1)
  then have "p_indentUnit (parseDiff ?di ?d Additions Omitted) = 6"
    by (simp only: j u)
  with j show ?thesis by (intro conjI)
qed

lemma startsWith_triple:
  "startsWith l ''+++'' \<or> startsWith l ''---'' \<Longrightarrow> isDiffHeader l"
  by (auto simp: isDiffHeader_def DIFF_HEADER_PREFIXES_def)

lemma extractDiffCodeLines_filter_triple:
  "extractDiffCodeLines (filter (\<lambda>l. \<not> startsWith l ''+++'' \<and> \<not> startsWith l ''---'') ls)
     = extractDiffCodeLines ls"
  by (induction ls) (simp_all add: extractDiffCodeLines_def)

text \<open>
  C10. A raw line that starts with \<open>+++\<close> or \<open>---\<close> is a diff header and passes the gate
  under no include selector. So an added line whose own text starts with \<open>++\<close>, and a
  deleted line whose own text starts with \<open>--\<close>, are headers although their side is
  selected; and the whole result of \<open>parseDiff\<close>, the lines and the indent unit, is the one
  computed from the raw lines without those that start with \<open>+++\<close> or \<open>---\<close>.
\<close>

theorem triple_marker_lines_dropped:
  "(startsWith l ''+++'' \<or> startsWith l ''---'' \<longrightarrow>
      isDiffHeader l \<and> \<not> passesGate incl l \<and>
      parseDiff_loop incl cp u k (l # rest) = parseDiff_loop incl cp u k rest) \<and>
   (startsWith c ''++'' \<longrightarrow>
      shouldIncludeLine (CHR ''+'' # c) Additions \<and> shouldIncludeLine (CHR ''+'' # c) Both \<and>
      isDiffHeader (CHR ''+'' # c)) \<and>
   (startsWith c ''--'' \<longrightarrow>
      shouldIncludeLine (CHR ''-'' # c) Deletions \<and> shouldIncludeLine (CHR ''-'' # c) Both \<and>
      isDiffHeader (CHR ''-'' # c)) \<and>
   p_lines (parseDiff di d incl opt) =
     parseDiff_loop incl (commentPatternOf opt) (p_indentUnit (parseDiff di d incl opt)) 0
       (filter (\<lambda>l. \<not> startsWith l ''+++'' \<and> \<not> startsWith l ''---'') (split_lines d)) \<and>
   p_indentUnit (parseDiff di d incl opt) =
     indentUnitOf (di (join_lines (extractDiffCodeLines
       (filter (\<lambda>l. \<not> startsWith l ''+++'' \<and> \<not> startsWith l ''---'') (split_lines d)))))"
proof -
  have a: "isDiffHeader l \<and> \<not> passesGate incl l \<and>
      parseDiff_loop incl cp u k (l # rest) = parseDiff_loop incl cp u k rest"
    if "startsWith l ''+++'' \<or> startsWith l ''---''"
    using startsWith_triple [OF that] by (simp add: passesGate_def)
  have b: "shouldIncludeLine (CHR ''+'' # c) Additions \<and> shouldIncludeLine (CHR ''+'' # c) Both \<and>
      isDiffHeader (CHR ''+'' # c)" if "startsWith c ''++''"
  proof -
    from that have "startsWith (CHR ''+'' # c) ''+++''"
      by (simp add: startsWith_def)
    then show ?thesis
      using startsWith_triple [of "CHR ''+'' # c"]
      by (simp add: shouldIncludeLine_cases startsWith_plus_minus)
  qed
  have c: "shouldIncludeLine (CHR ''-'' # c) Deletions \<and> shouldIncludeLine (CHR ''-'' # c) Both \<and>
      isDiffHeader (CHR ''-'' # c)" if "startsWith c ''--''"
  proof -
    from that have "startsWith (CHR ''-'' # c) ''---''"
      by (simp add: startsWith_def)
    then show ?thesis
      using startsWith_triple [of "CHR ''-'' # c"]
      by (simp add: shouldIncludeLine_cases startsWith_plus_minus)
  qed
  have g: "\<not> startsWith r ''+++'' \<and> \<not> startsWith r ''---''" if "passesGate incl r" for r
    using that startsWith_triple [of r] by (auto simp: passesGate_def)
  have d: "p_lines (parseDiff di d incl opt) =
     parseDiff_loop incl (commentPatternOf opt) (p_indentUnit (parseDiff di d incl opt)) 0
       (filter (\<lambda>l. \<not> startsWith l ''+++'' \<and> \<not> startsWith l ''---'') (split_lines d))"
    unfolding p_lines_parseDiff
    by (rule parseDiff_loop_filter [symmetric]) (rule g)
  have e: "p_indentUnit (parseDiff di d incl opt) =
     indentUnitOf (di (join_lines (extractDiffCodeLines
       (filter (\<lambda>l. \<not> startsWith l ''+++'' \<and> \<not> startsWith l ''---'') (split_lines d)))))"
    unfolding extractDiffCodeLines_filter_triple by (simp add: parseDiff_def Let_def)
  from a b c d e show ?thesis by blast
qed

theorem triple_marker_lines_dropped_witness:
  "startsWith ''++counter;'' ''++'' \<and> isDiffHeader ''+++counter;'' \<and>
   shouldIncludeLine ''+++counter;'' Additions \<and>
   startsWith ''-- old note'' ''--'' \<and> isDiffHeader ''--- old note'' \<and>
   shouldIncludeLine ''--- old note'' Deletions \<and>
   p_lines (parseDiff (detectsSpaces 2)
      (join_lines [''@@ -1,2 +1,2 @@'', ''+++counter;'', ''+x = 1;'', ''--- old note'', ''-y = 2;''])
      Both Null)
     = [\<lparr>lineNumber = 1, depth = 0, content = ''x = 1;''\<rparr>,
        \<lparr>lineNumber = 2, depth = 0, content = ''y = 2;''\<rparr>]"
proof -
  have s1: "startsWith ''++counter;'' ''++''" and s2: "startsWith ''-- old note'' ''--''"
    by (simp_all add: startsWith_def)
  have p: "p_lines (parseDiff (detectsSpaces 2)
      (join_lines [''@@ -1,2 +1,2 @@'', ''+++counter;'', ''+x = 1;'', ''--- old note'', ''-y = 2;''])
      Both Null)
     = [\<lparr>lineNumber = 1, depth = 0, content = ''x = 1;''\<rparr>,
        \<lparr>lineNumber = 2, depth = 0, content = ''y = 2;''\<rparr>]"
    by code_simp
  from s1 s2 p show ?thesis
    using triple_marker_lines_dropped [where c = "''++counter;''"]
      triple_marker_lines_dropped [where c = "''-- old note''"]
    by blast
qed

section \<open>Result shapes\<close>

lemma buildResult_includeLines:
  assumes "b_includeLines b"
  shows "\<exists>w. buildResult ts parsed b = WithLines w \<and>
           lineCount w = length (lines w) \<and>
           lines w = map (\<lambda>l. \<lparr>line = lineNumber l, d_depth = depth l, d_content = content l\<rparr>)
                       parsed \<and>
           max_value w = s_max (computeStatistics (map (\<lambda>l. real (depth l)) parsed)) \<and>
           variance w = s_variance (computeStatistics (map (\<lambda>l. real (depth l)) parsed)) \<and>
           mean w = s_mean (computeStatistics (map (\<lambda>l. real (depth l)) parsed)) \<and>
           stdDev w = s_stdDev (computeStatistics (map (\<lambda>l. real (depth l)) parsed)) \<and>
           median w = s_median (computeStatistics (map (\<lambda>l. real (depth l)) parsed)) \<and>
           sum_value w = s_sum (computeStatistics (map (\<lambda>l. real (depth l)) parsed)) \<and>
           depthHistogram w = buildHistogram (map (\<lambda>l. real (depth l)) parsed)"
  using assms by (simp add: buildResult_def Let_def)

lemma buildResult_linesOf:
  assumes "linesOf (buildResult ts parsed b) = Some ls"
  shows "\<exists>v. verboseOf (buildResult ts parsed b) = Some v \<and> lineCount v = length ls"
proof -
  from assms have "b_includeLines b"
    by (auto simp: buildResult_def Let_def linesOf_def split: if_splits)
  from buildResult_includeLines [OF this, of ts parsed] obtain w
    where "buildResult ts parsed b = WithLines w" and "lineCount w = length (lines w)"
    by blast
  with assms show ?thesis
    by (simp add: verboseOf_def linesOf_def ComplexityResultVerbose.truncate_def)
qed

text \<open>
  C9. A result built with \<open>includeLines\<close> is of the largest shape, whether or not \<open>verbose\<close>
  was asked for: it has the line details and every verbose field (\<open>lineCount\<close>, \<open>max\<close>,
  \<open>variance\<close>, \<open>mean\<close>, \<open>stdDev\<close>, \<open>median\<close>, \<open>sum\<close>, \<open>depthHistogram\<close>, each with the value
  computed from the depths), and \<open>lineCount\<close> is the number of line details. Any result that
  has the line details has the verbose fields, with that \<open>lineCount\<close>. The same holds for
  the two entry points called with \<open>includeLines: true\<close>.
\<close>

theorem includeLines_implies_verbose:
  "(b_includeLines b \<longrightarrow>
      (\<exists>w. buildResult ts parsed b = WithLines w \<and>
           lineCount w = length (lines w) \<and>
           lines w = map (\<lambda>l. \<lparr>line = lineNumber l, d_depth = depth l, d_content = content l\<rparr>)
                       parsed \<and>
           max_value w = s_max (computeStatistics (map (\<lambda>l. real (depth l)) parsed)) \<and>
           variance w = s_variance (computeStatistics (map (\<lambda>l. real (depth l)) parsed)) \<and>
           mean w = s_mean (computeStatistics (map (\<lambda>l. real (depth l)) parsed)) \<and>
           stdDev w = s_stdDev (computeStatistics (map (\<lambda>l. real (depth l)) parsed)) \<and>
           median w = s_median (computeStatistics (map (\<lambda>l. real (depth l)) parsed)) \<and>
           sum_value w = s_sum (computeStatistics (map (\<lambda>l. real (depth l)) parsed)) \<and>
           depthHistogram w = buildHistogram (map (\<lambda>l. real (depth l)) parsed))) \<and>
   (\<forall>ls. linesOf (buildResult ts parsed b) = Some ls \<longrightarrow>
      (\<exists>v. verboseOf (buildResult ts parsed b) = Some v \<and> lineCount v = length ls)) \<and>
   (includeLines opts = Some True \<longrightarrow>
      (\<exists>w. analyzeComplexity di ts txt opts = WithLines w \<and> lineCount w = length (lines w))) \<and>
   (includeLines dopts = Some True \<longrightarrow>
      (\<exists>w. analyzeDiffComplexity di ts d dopts = WithLines w \<and>
           lineCount w = length (lines w)))"
proof -
  have c: "\<exists>w. analyzeComplexity di ts txt opts = WithLines w \<and> lineCount w = length (lines w)"
    if "includeLines opts = Some True"
  proof -
    let ?b = "\<lparr>b_verbose = (case verbose opts of None \<Rightarrow> False | Some x \<Rightarrow> x),
               b_includeLines = True, userThresholds = thresholds opts\<rparr>"
    have "b_includeLines ?b" by simp
    from buildResult_includeLines [OF this] that show ?thesis
      by (simp add: analyzeComplexity_def Let_def) blast
  qed
  have d: "\<exists>w. analyzeDiffComplexity di ts d dopts = WithLines w \<and>
           lineCount w = length (lines w)"
    if "includeLines dopts = Some True"
  proof -
    let ?b = "\<lparr>b_verbose = (case verbose dopts of None \<Rightarrow> False | Some x \<Rightarrow> x),
               b_includeLines = True, userThresholds = thresholds dopts\<rparr>"
    have "b_includeLines ?b" by simp
    from buildResult_includeLines [OF this] that show ?thesis
      by (simp add: analyzeDiffComplexity_def Let_def) blast
  qed
  from buildResult_includeLines [of b ts parsed] buildResult_linesOf [of ts parsed b] c d
  show ?thesis by blast
qed

theorem includeLines_implies_verbose_witness:
  "includeLines \<lparr>commentPattern = Omitted, thresholds = None, verbose = None,
                  includeLines = Some True\<rparr> = Some True \<and>
   linesOf (analyzeComplexity (detectsSpaces 2) integerToString
      (join_lines [''function foo() {'', ''  return 1;'', ''}''])
      \<lparr>commentPattern = Omitted, thresholds = None, verbose = None,
       includeLines = Some True\<rparr>)
     = Some [\<lparr>line = 1, d_depth = 0, d_content = ''function foo() {''\<rparr>,
             \<lparr>line = 2, d_depth = 1, d_content = ''return 1;''\<rparr>,
             \<lparr>line = 3, d_depth = 0, d_content = ''}''\<rparr>] \<and>
   map_option lineCount
     (verboseOf (analyzeComplexity (detectsSpaces 2) integerToString
      (join_lines [''function foo() {'', ''  return 1;'', ''}''])
      \<lparr>commentPattern = Omitted, thresholds = None, verbose = None,
       includeLines = Some True\<rparr>)) = Some 3"
proof -
  let ?di = "detectsSpaces 2"
  let ?t = "join_lines [''function foo() {'', ''  return 1;'', ''}'']"
  let ?o = "\<lparr>commentPattern = Omitted, thresholds = None, verbose = None,
             includeLines = Some True\<rparr>"
  have p: "p_lines (parseContent ?di ?t Omitted)
     = [\<lparr>lineNumber = 1, depth = 0, content = ''function foo() {''\<rparr>,
        \<lparr>lineNumber = 2, depth = 1, content = ''return 1;''\<rparr>,
        \<lparr>lineNumber = 3, depth = 0, content = ''}''\<rparr>]"
    by code_simp
  have l: "linesOf (analyzeComplexity ?di integerToString ?t ?o)
     = Some [\<lparr>line = 1, d_depth = 0, d_content = ''function foo() {''\<rparr>,
             \<lparr>line = 2, d_depth = 1, d_content = ''return 1;''\<rparr>,
             \<lparr>line = 3, d_depth = 0, d_content = ''}''\<rparr>]"
    unfolding analyzeComplexity_def Let_def
    by (simp only: AnalyzeOptions.simps p) (simp add: buildResult_def Let_def linesOf_def)
  from includeLines_implies_verbose [where b = "\<lparr>b_verbose = False, b_includeLines = True,
        userThresholds = None\<rparr>" and ts = integerToString and parsed = "p_lines (parseContent ?di ?t Omitted)"]
  have "\<forall>ls. linesOf (buildResult integerToString (p_lines (parseContent ?di ?t Omitted))
            \<lparr>b_verbose = False, b_includeLines = True, userThresholds = None\<rparr>) = Some ls \<longrightarrow>
      (\<exists>v. verboseOf (buildResult integerToString (p_lines (parseContent ?di ?t Omitted))
            \<lparr>b_verbose = False, b_includeLines = True, userThresholds = None\<rparr>) = Some v \<and>
           lineCount v = length ls)"
    by (rule conjunct1 [OF conjunct2])
  moreover have "analyzeComplexity ?di integerToString ?t ?o =
      buildResult integerToString (p_lines (parseContent ?di ?t Omitted))
            \<lparr>b_verbose = False, b_includeLines = True, userThresholds = None\<rparr>"
    by (simp add: analyzeComplexity_def)
  ultimately have "\<exists>v. verboseOf (analyzeComplexity ?di integerToString ?t ?o) = Some v \<and>
           lineCount v = 3"
    using l by auto
  then have "map_option lineCount (verboseOf (analyzeComplexity ?di integerToString ?t ?o)) = Some 3"
    by auto
  with l show ?thesis by simp
qed

section \<open>The examples of the test suite\<close>

text \<open>
  The model on inputs of the repository's tests, with a detector that reports two spaces
  (what \<open>detect-indent\<close> finds in these texts).
\<close>

lemma test_nested_code:
  "map depth (p_lines (parseContent (detectsSpaces 2)
      (join_lines [''function foo() {'', ''  if (true) {'', ''    console.log(1);'', ''  }'',
                   ''}''])
      Omitted)) = [0, 1, 2, 1, 0]"
  by code_simp

lemma test_comment_filtering:
  "length (p_lines (parseContent (detectsSpaces 2)
      (join_lines [''function foo() {'', ''  // this is a comment'', ''  return 1;'', ''}''])
      Omitted)) = 3 \<and>
   length (p_lines (parseContent (detectsSpaces 2)
      (join_lines [''function foo() {'', ''  // this is a comment'', ''  return 1;'', ''}''])
      Null)) = 4"
  by code_simp

lemma test_tabs:
  "map depth (p_lines (parseContent detectsTabs
      (join_lines [''a'', [CHR 0x09, CHR ''b''], [CHR 0x09, CHR 0x09, CHR ''c'']])
      Omitted)) = [0, 1, 2]"
  by code_simp

lemma test_default_comment_pattern:
  "DEFAULT_COMMENT_PATTERN ''// comment'' \<and> DEFAULT_COMMENT_PATTERN ''  // indented'' \<and>
   DEFAULT_COMMENT_PATTERN ''/* start */'' \<and> DEFAULT_COMMENT_PATTERN '' * continuation'' \<and>
   DEFAULT_COMMENT_PATTERN ''# comment'' \<and> DEFAULT_COMMENT_PATTERN ''<!-- comment -->'' \<and>
   DEFAULT_COMMENT_PATTERN ''-- SQL comment'' \<and>
   \<not> DEFAULT_COMMENT_PATTERN ''const x = 1;'' \<and> \<not> DEFAULT_COMMENT_PATTERN ''function foo() {''"
  by code_simp

lemma binary64_small:
  "binary64 0 = 0" "binary64 1 = 1" "binary64 2 = 2" "binary64 3 = 3" "binary64 4 = 4"
  "binary64 5 = 5" "binary64 6 = 6" "binary64 10 = 10" "binary64 (3 / 2) = 3 / 2"
  by (simp_all add: binary64_def exponent2_def roundTiesToEven_def compute_floorlog Let_def)

lemma test_median_even:
  "s_median (computeStatistics [0, 1, 2, 3]) = 3 / 2 \<and> s_max (computeStatistics [0, 1, 2, 3]) = 3"
  by (simp add: computeStatistics_def computeStatisticsOn_def Let_def at_or0_def last_or0_def
      num_add_def num_div_def binary64_small)

lemma test_median_odd:
  "s_median (computeStatistics [0, 1, 2, 3, 4]) = 2 \<and>
   s_sum (computeStatistics [0, 1, 2, 3, 4]) = 10"
  by (simp add: computeStatistics_def computeStatisticsOn_def Let_def at_or0_def last_or0_def
      num_add_def num_div_def binary64_small)

lemma test_histogram:
  "buildHistogram [0, 1, 2, 1, 0] 0 = Some 2 \<and> buildHistogram [0, 1, 2, 1, 0] 1 = Some 2 \<and>
   buildHistogram [0, 1, 2, 1, 0] 2 = Some 1 \<and> buildHistogram [0, 1, 2, 1, 0] 3 = None"
  by (simp add: buildHistogram_def)

lemma test_sample_diff:
  "length (p_lines (parseDiff (detectsSpaces 2)
      (join_lines
        [''diff --git a/src/app.ts b/src/app.ts'', ''index 1234567..abcdefg 100644'',
         ''--- a/src/app.ts'', ''+++ b/src/app.ts'',
         ''@@ -10,6 +10,12 @@ export function processOrders(orders: Order[]) {'',
         ''       if (validated.isValid) {'', ''         for (const item of order.items) {'',
         ''+          if (item.quantity > 0) {'', ''+            const processed = {'',
         ''+              id: item.id,'', ''+              total: item.price * item.quantity,'',
         ''+            };'', ''+            results.push(processed);'', ''+          }'',
         ''         }'', ''       }'', ''''])
      Additions Omitted)) = 7"
  by code_simp

end
